theory Spec2Isabelle
  imports Main
begin

section \<open>Unicode text\<close>

text \<open>
  The program is Python 2 and keeps all text as \<^verbatim>\<open>unicode\<close> objects. A unicode
  string is modelled as the list of its code points, so that \<^verbatim>\<open>ord(c)\<close> is the
  element itself and \<^verbatim>\<open>len\<close> counts code points. \<open>u\<close> turns an Isabelle
  literal into such a string.
\<close>

type_synonym uchar = nat
type_synonym unicode = "uchar list"

definition u :: "string \<Rightarrow> unicode" where
  "u s = map of_char s"

section \<open>The csv writer's escape scheme\<close>

text \<open>
  \<^verbatim>\<open>hex(n)\<close> of Python: the prefix \<^verbatim>\<open>0x\<close> and the lower-case hexadecimal
  digits of \<open>n\<close>, without leading zeros.
\<close>

definition hexchar :: "nat \<Rightarrow> uchar" where
  "hexchar d = (if d < 10 then 48 + d else 87 + d)"

fun hex_digits :: "nat \<Rightarrow> unicode" where
  "hex_digits n = (if n < 16 then [hexchar n] else hex_digits (n div 16) @ [hexchar (n mod 16)])"

declare hex_digits.simps [simp del]

definition hex :: "nat \<Rightarrow> unicode" where
  "hex n = [48, 120] @ hex_digits n"

text \<open>\<^verbatim>\<open>s[-2:]\<close>: the last two elements (all of \<open>s\<close> when it is shorter).\<close>

definition last2 :: "'a list \<Rightarrow> 'a list" where
  "last2 s = drop (length s - 2) s"

text \<open>
  \<^verbatim>\<open>.upper()\<close>, on the letters a to z. The writer applies it to the output of
  \<^verbatim>\<open>hex\<close> only, which holds digits, the letters a to f and x.
\<close>

definition upper_char :: "uchar \<Rightarrow> uchar" where
  "upper_char c = (if 97 \<le> c \<and> c \<le> 122 then c - 32 else c)"

definition upper :: "unicode \<Rightarrow> unicode" where
  "upper s = map upper_char s"

text \<open>\<^verbatim>\<open>string.hexdigits\<close> is \<^verbatim>\<open>0123456789abcdefABCDEF\<close>.\<close>

definition hexdigits :: "unicode" where
  "hexdigits = u ''0123456789abcdefABCDEF''"

text \<open>
  The characters tested by \<^verbatim>\<open>c in "\\;\"'"\<close>: backslash (92), semicolon (59),
  double quote (34) and single quote (39).
\<close>

definition escape_set :: "unicode" where
  "escape_set = [92, 59, 34, 39]"

text \<open>The body of the loop of \<^verbatim>\<open>write_csv.escape\<close> for one character \<open>c\<close>.\<close>

definition escape_char :: "uchar \<Rightarrow> unicode" where
  "escape_char c =
     (if c < 32 \<or> c \<in> set escape_set then
        (let escaped_char = [92] @ upper (last2 (hex c)) in
         if escaped_char ! 1 \<notin> set hexdigits
         then [escaped_char ! 0] @ [48] @ [last escaped_char]
         else escaped_char)
      else [c])"

definition escape :: "unicode \<Rightarrow> unicode" where
  "escape s = concat (map escape_char s)"

text \<open>
  What the docstring of \<^verbatim>\<open>escape\<close> and the specification say is escaped: the
  control characters and \<^verbatim>\<open>[\:"']\<close>, with the colon (58) in the place of the
  semicolon. Written from the specification's words, to be compared with the
  code.
\<close>

definition spec_escaped :: "uchar \<Rightarrow> bool" where
  "spec_escaped c = (c < 32 \<or> c \<in> set [92, 58, 34, 39])"

text \<open>The upper-case hexadecimal digit of a value below 16.\<close>

definition HEXCHAR :: "nat \<Rightarrow> uchar" where
  "HEXCHAR d = (if d < 10 then 48 + d else 55 + d)"

section \<open>Python values\<close>

text \<open>
  The values that reach \<^verbatim>\<open>Bookmark.__setattr__\<close>: \<^verbatim>\<open>None\<close>, booleans,
  integers, unicode strings and byte strings (\<^verbatim>\<open>str\<close>, a list of bytes).
  Python 2 has two types of integers: \<^verbatim>\<open>int\<close>, the machine integers up to
  \<^verbatim>\<open>sys.maxint\<close>, and \<^verbatim>\<open>long\<close>, which is unbounded. \<open>PyInt\<close> is a
  value of the first type and \<open>PyLong\<close> a value of the second.
\<close>

datatype pyval = PyNone | PyBool bool | PyInt int | PyLong int | PyUnicode unicode
  | PyStr "nat list"

text \<open>
  \<^verbatim>\<open>isinstance(v, int)\<close>: \<^verbatim>\<open>bool\<close> is a subclass of \<^verbatim>\<open>int\<close>, and
  \<^verbatim>\<open>long\<close> is not.
\<close>

fun isinstance_int :: "pyval \<Rightarrow> bool" where
  "isinstance_int (PyInt i) = True"
| "isinstance_int (PyBool b) = True"
| "isinstance_int v = False"

fun isinstance_bool :: "pyval \<Rightarrow> bool" where
  "isinstance_bool (PyBool b) = True"
| "isinstance_bool v = False"

fun isinstance_unicode :: "pyval \<Rightarrow> bool" where
  "isinstance_unicode (PyUnicode s) = True"
| "isinstance_unicode v = False"

text \<open>The integer a number stands for in arithmetic and comparisons.\<close>

fun int_of :: "pyval \<Rightarrow> int" where
  "int_of (PyInt i) = i"
| "int_of (PyLong i) = i"
| "int_of (PyBool b) = (if b then 1 else 0)"
| "int_of v = 0"

text \<open>\<^verbatim>\<open>str(i)\<close> of an integer: its decimal digits, with a minus sign when negative.\<close>

fun dec_digits :: "nat \<Rightarrow> unicode" where
  "dec_digits n = (if n < 10 then [48 + n] else dec_digits (n div 10) @ [48 + n mod 10])"

declare dec_digits.simps [simp del]

definition str_int :: "int \<Rightarrow> unicode" where
  "str_int i = (if i < 0 then 45 # dec_digits (nat (- i)) else dec_digits (nat i))"

text \<open>
  \<^verbatim>\<open>unicode(v)\<close>. A byte string is decoded as ASCII, and a byte above 127 raises
  \<^verbatim>\<open>UnicodeDecodeError\<close>, which is the result \<open>None\<close> here.
\<close>

fun to_unicode :: "pyval \<Rightarrow> unicode option" where
  "to_unicode (PyUnicode s) = Some s"
| "to_unicode (PyStr bs) = (if list_all (\<lambda>b. b < 128) bs then Some bs else None)"
| "to_unicode (PyInt i) = Some (str_int i)"
| "to_unicode (PyLong i) = Some (str_int i)"
| "to_unicode (PyBool b) = Some (if b then u ''True'' else u ''False'')"
| "to_unicode PyNone = Some (u ''None'')"

text \<open>
  \<^verbatim>\<open>str(s)\<close> of a unicode string encodes it as ASCII, and raises
  \<^verbatim>\<open>UnicodeEncodeError\<close> unless every character is below 128.
\<close>

definition is_ascii :: "unicode \<Rightarrow> bool" where
  "is_ascii s = list_all (\<lambda>c. c < 128) s"

text \<open>
  \<^verbatim>\<open>a == b\<close> on these values: numbers compare by value (\<^verbatim>\<open>True == 1\<close>), a
  byte string equals a unicode string when it decodes as ASCII to the same text.
\<close>

fun py_eq :: "pyval \<Rightarrow> pyval \<Rightarrow> bool" where
  "py_eq PyNone PyNone = True"
| "py_eq (PyUnicode s) (PyUnicode t) = (s = t)"
| "py_eq (PyStr s) (PyStr t) = (s = t)"
| "py_eq (PyUnicode s) (PyStr t) = (to_unicode (PyStr t) = Some s)"
| "py_eq (PyStr t) (PyUnicode s) = (to_unicode (PyStr t) = Some s)"
| "py_eq PyNone v = False"
| "py_eq v PyNone = False"
| "py_eq (PyUnicode s) v = False"
| "py_eq v (PyUnicode s) = False"
| "py_eq (PyStr s) v = False"
| "py_eq v (PyStr s) = False"
| "py_eq a b = (int_of a = int_of b)"

text \<open>
  \<^verbatim>\<open>s.strip()\<close> of a unicode string removes leading and trailing white space:
  the characters for which \<^verbatim>\<open>unicode.isspace\<close> holds.
\<close>

definition isspace :: "uchar \<Rightarrow> bool" where
  "isspace c = ((9 \<le> c \<and> c \<le> 13) \<or> (28 \<le> c \<and> c \<le> 32) \<or> c = 133 \<or> c = 160
     \<or> c = 5760 \<or> c = 6158 \<or> (8192 \<le> c \<and> c \<le> 8202) \<or> c = 8232 \<or> c = 8233
     \<or> c = 8239 \<or> c = 8287 \<or> c = 12288)"

definition strip :: "unicode \<Rightarrow> unicode" where
  "strip s = rev (dropWhile isspace (rev (dropWhile isspace s)))"

section \<open>The two regular expressions of the class\<close>

text \<open>
  The patterns are compiled with \<^verbatim>\<open>re.X\<close>, so white space in them is layout,
  except in the class \<^verbatim>\<open>[ ]\<close>. \<open>RDot\<close> is \<^verbatim>\<open>.\<close>, any character but the
  newline.
\<close>

datatype rx = RNone | REps | RChar uchar | RRange uchar uchar | RDot
  | RSeq rx rx | RAlt rx rx | ROpt rx | RStar rx | RPlus rx

fun nullable :: "rx \<Rightarrow> bool" where
  "nullable RNone = False"
| "nullable REps = True"
| "nullable (RChar c) = False"
| "nullable (RRange a b) = False"
| "nullable RDot = False"
| "nullable (RSeq r s) = (nullable r \<and> nullable s)"
| "nullable (RAlt r s) = (nullable r \<or> nullable s)"
| "nullable (ROpt r) = True"
| "nullable (RStar r) = True"
| "nullable (RPlus r) = nullable r"

text \<open>The derivative of an expression by a character: what may follow \<open>c\<close>.\<close>

fun deriv :: "uchar \<Rightarrow> rx \<Rightarrow> rx" where
  "deriv c RNone = RNone"
| "deriv c REps = RNone"
| "deriv c (RChar d) = (if c = d then REps else RNone)"
| "deriv c (RRange a b) = (if a \<le> c \<and> c \<le> b then REps else RNone)"
| "deriv c RDot = (if c = 10 then RNone else REps)"
| "deriv c (RSeq r s) =
     (if nullable r then RAlt (RSeq (deriv c r) s) (deriv c s) else RSeq (deriv c r) s)"
| "deriv c (RAlt r s) = RAlt (deriv c r) (deriv c s)"
| "deriv c (ROpt r) = deriv c r"
| "deriv c (RStar r) = RSeq (deriv c r) (RStar r)"
| "deriv c (RPlus r) = RSeq (deriv c r) (RStar r)"

text \<open>
  \<^verbatim>\<open>pattern.match(s)\<close> succeeds when the expression matches at the start of
  \<open>s\<close>, that is when some prefix of \<open>s\<close> is in its language.
\<close>

fun re_match :: "rx \<Rightarrow> unicode \<Rightarrow> bool" where
  "re_match r [] = nullable r"
| "re_match r (c # cs) = (nullable r \<or> re_match (deriv c r) cs)"

text \<open>
  The whole of \<open>s\<close> is in the language of the expression: \<open>s\<close> is a text of
  the grammar the expression describes, with nothing after it.
\<close>

fun in_language :: "rx \<Rightarrow> unicode \<Rightarrow> bool" where
  "in_language r [] = nullable r"
| "in_language r (c # cs) = in_language (deriv c r) cs"

definition rseq :: "rx list \<Rightarrow> rx" where
  "rseq rs = foldr RSeq rs REps"

definition lit :: "string \<Rightarrow> rx" where
  "lit s = rseq (map (\<lambda>c. RChar (of_char c)) s)"

definition digit :: rx where
  "digit = RRange 48 57"

text \<open>\<^verbatim>\<open>[0-9]?.?[0-9]+\<close>, the number of the colour pattern.\<close>

definition cnumber :: rx where
  "cnumber = rseq [ROpt digit, ROpt RDot, RPlus digit]"

text \<open>\<^verbatim>\<open>null | [+-]?[0-9]?.?[0-9]+\<close>, an operand of a destination.\<close>

definition operand :: rx where
  "operand = RAlt (lit ''null'') (rseq [ROpt (RAlt (RChar 43) (RChar 45)), cnumber])"

definition spaces :: rx where
  "spaces = RStar (RChar 32)"

definition slash :: rx where
  "slash = ROpt (RChar 47)"

definition colorpattern :: rx where
  "colorpattern = rseq [cnumber, RPlus (RChar 32), cnumber, RPlus (RChar 32), cnumber]"

definition destpattern :: rx where
  "destpattern =
     RAlt (rseq [slash, lit ''XYZ'', spaces, operand, spaces, operand, spaces, operand])
    (RAlt (rseq [slash, lit ''Fit''])
    (RAlt (rseq [slash, lit ''FitH'', spaces, operand])
    (RAlt (rseq [slash, lit ''FitV'', spaces, operand])
    (RAlt (rseq [slash, lit ''FitR'', spaces, operand, spaces, operand, spaces, operand,
                 spaces, operand])
    (RAlt (rseq [slash, lit ''FitB''])
    (RAlt (rseq [slash, lit ''FitBH'', spaces, operand])
          (rseq [slash, lit ''FitBV'', spaces, operand])))))))"

section \<open>Bookmark nodes\<close>

text \<open>The thirteen public attributes of a \<^verbatim>\<open>Bookmark\<close>.\<close>

datatype attr = Action | Title | Page | Destination | Named | Namedn | File | Newwindow
  | Uri | Italic | Bold | Color | Open

text \<open>The exceptions of Python that the modelled code can raise.\<close>

datatype error = IndexError | KeyError | AttributeError | RecursionError | TypeError
  | UnicodeEncodeError | UnicodeDecodeError

text \<open>
  A call of \<^verbatim>\<open>warn\<close> writes one message to standard error. There is one
  constructor for each call in the class, with the values formatted into the
  message.
\<close>

datatype diag =
    PageSetToZero
  | NotBoolean attr
  | TryingToConvert attr
  | CouldNotConvert attr
  | NotAnAction unicode
  | NotADestination unicode
  | DestinationPattern
  | NotAColor unicode
  | ColorPattern
  | NotSet
  | NoChildWithIndex int
  | CantDelete

text \<open>
  \<^verbatim>\<open>warn(msg)\<close> writes \<^verbatim>\<open>str(msg)\<close>. A message that has a unicode value
  formatted into it is a unicode string, and \<^verbatim>\<open>str\<close> of it raises
  \<^verbatim>\<open>UnicodeEncodeError\<close> unless the value is ASCII. The other messages are
  byte strings.
\<close>

fun printable :: "diag \<Rightarrow> bool" where
  "printable (NotAnAction s) = is_ascii s"
| "printable (NotADestination s) = is_ascii s"
| "printable (NotAColor s) = is_ascii s"
| "printable m = True"

text \<open>
  Calls of \<^verbatim>\<open>warn\<close> one after the other: the messages written, and the
  exception of the first call that raises, after which no more is written.
\<close>

fun warn_all :: "diag list \<Rightarrow> diag list \<times> error option" where
  "warn_all [] = ([], None)"
| "warn_all (m # ms) =
     (if printable m then (m # fst (warn_all ms), snd (warn_all ms))
      else ([], Some UnicodeEncodeError))"

text \<open>
  \<^verbatim>\<open>__setattr__\<close> runs its checks one after the other on the value, which a
  check may replace. A check ends in one of three ways: it goes on with a value
  (\<open>Go\<close>), it returns without setting the attribute (\<open>Return\<close>), or an exception
  leaves it (\<open>Raise\<close>). With the outcome come the messages the check wrote.
\<close>

datatype verdict = Go pyval | Return | Raise error

type_synonym checked = "diag list \<times> verdict"

text \<open>The messages are written, and the method returns unless writing raised.\<close>

definition warn_return :: "diag list \<Rightarrow> checked" where
  "warn_return ms =
     (case snd (warn_all ms) of
        None \<Rightarrow> (fst (warn_all ms), Return)
      | Some e \<Rightarrow> (fst (warn_all ms), Raise e))"

definition check_page :: "attr \<Rightarrow> pyval \<Rightarrow> checked" where
  "check_page name v =
     (if name = Page then
        (if \<not> isinstance_int v \<or> int_of v < 0 then ([PageSetToZero], Go (PyInt 0))
         else ([], Go v))
      else ([], Go v))"

definition check_bool :: "attr \<Rightarrow> pyval \<Rightarrow> checked" where
  "check_bool name v =
     (if name \<in> set [Italic, Bold, Open, Newwindow] then
        (if \<not> isinstance_bool v then
           (if \<not> (name = Newwindow \<and> v = PyNone) then warn_return [NotBoolean name]
            else ([], Go v))
         else ([], Go v))
      else ([], Go v))"

definition check_text :: "attr \<Rightarrow> pyval \<Rightarrow> checked" where
  "check_text name v =
     (if name \<in> set [Title, File, Uri, Destination, Color, Action] then
        (if v \<noteq> PyNone then
           (if \<not> isinstance_unicode v then
              (let ws = (if name \<in> set [Title, File, Uri] then [TryingToConvert name] else [])
               in case to_unicode v of
                    Some s \<Rightarrow> (ws, Go (PyUnicode s))
                  | None \<Rightarrow> (ws @ [CouldNotConvert name], Return))
            else ([], Go v))
         else ([], Go v))
      else ([], Go v))"

text \<open>\<^verbatim>\<open>value not in [None, 'GoTo', 'GoToR', 'URI', 'Launch']\<close>.\<close>

definition actions :: "pyval list" where
  "actions = [PyNone, PyStr (u ''GoTo''), PyStr (u ''GoToR''), PyStr (u ''URI''),
              PyStr (u ''Launch'')]"

text \<open>
  At the three checks below the value is \<^verbatim>\<open>None\<close> or a unicode string, since
  \<open>check_text\<close> has run; \<open>text_of\<close> is its text, and \<^verbatim>\<open>strip\<close> on any other
  value is the identity here.
\<close>

fun strip_val :: "pyval \<Rightarrow> pyval" where
  "strip_val (PyUnicode s) = PyUnicode (strip s)"
| "strip_val v = v"

fun text_of :: "pyval \<Rightarrow> unicode" where
  "text_of (PyUnicode s) = s"
| "text_of (PyStr s) = s"
| "text_of v = []"

definition check_action :: "attr \<Rightarrow> pyval \<Rightarrow> checked" where
  "check_action name v =
     (if name = Action then
        (if \<not> list_ex (py_eq v) actions then warn_return [NotAnAction (text_of v)]
         else ([], Go v))
      else ([], Go v))"

definition check_destination :: "attr \<Rightarrow> pyval \<Rightarrow> checked" where
  "check_destination name v =
     (if name = Destination \<and> v \<noteq> PyNone then
        (let v' = strip_val v in
         if \<not> re_match destpattern (text_of v')
         then warn_return [NotADestination (text_of v'), DestinationPattern, NotSet]
         else ([], Go v'))
      else ([], Go v))"

definition check_color :: "attr \<Rightarrow> pyval \<Rightarrow> checked" where
  "check_color name v =
     (if name = Color \<and> v \<noteq> PyNone then
        (let v' = strip_val v in
         if \<not> re_match colorpattern (text_of v')
         then warn_return [NotAColor (text_of v'), ColorPattern, NotSet]
         else ([], Go v'))
      else ([], Go v))"

text \<open>Running the next check unless the previous one has returned or raised.\<close>

definition and_then :: "checked \<Rightarrow> (pyval \<Rightarrow> checked) \<Rightarrow> checked" where
  "and_then c f =
     (case snd c of
        Go v \<Rightarrow> (fst c @ fst (f v), snd (f v))
      | Return \<Rightarrow> c
      | Raise e \<Rightarrow> c)"

definition validate :: "attr \<Rightarrow> pyval \<Rightarrow> checked" where
  "validate name v =
     and_then (and_then (and_then (and_then (and_then (check_page name v)
       (check_bool name)) (check_text name)) (check_action name))
       (check_destination name)) (check_color name)"

text \<open>
  Objects live in a store, at addresses; \<^verbatim>\<open>id(node)\<close> is the address. The
  fields whose names start with an underscore in the source carry the prefix
  \<open>n_\<close>. \<open>n_seen\<close> is the dictionary from the \<^verbatim>\<open>id\<close> of a start node to the
  number of the iteration run the node was last seen in.
\<close>

type_synonym addr = nat

record bookmark =
  attrs :: "attr \<Rightarrow> pyval"
  n_level :: int
  n_children :: "addr list"
  n_parent :: "addr option"
  n_childnumber :: int
  n_seen :: "addr \<Rightarrow> int option"
  n_iteritem :: "addr option"
  n_delete :: bool

text \<open>
  The state of the program: the store, the next unused address and the messages
  written so far.
\<close>

record world =
  heap :: "addr \<Rightarrow> bookmark"
  fresh :: addr
  log :: "diag list"

definition upd :: "addr \<Rightarrow> (bookmark \<Rightarrow> bookmark) \<Rightarrow> world \<Rightarrow> world" where
  "upd a f w = w\<lparr>heap := (heap w)(a := f (heap w a))\<rparr>"

definition warn :: "diag \<Rightarrow> world \<Rightarrow> world" where
  "warn msg w = w\<lparr>log := log w @ [msg]\<rparr>"

definition getattr :: "world \<Rightarrow> addr \<Rightarrow> attr \<Rightarrow> pyval" where
  "getattr w a name = attrs (heap w a) name"

text \<open>
  \<^verbatim>\<open>node.name = value\<close> for a public attribute: the messages of the checks
  are written, and the value that passed them is stored in the dictionary of the
  node. An exception that leaves a check leaves the assignment.
\<close>

definition setattr :: "addr \<Rightarrow> attr \<Rightarrow> pyval \<Rightarrow> world \<Rightarrow> error + world" where
  "setattr self name v w =
     (case snd (validate name v) of
        Raise e \<Rightarrow> Inl e
      | Return \<Rightarrow> Inr (w\<lparr>log := log w @ fst (validate name v)\<rparr>)
      | Go v' \<Rightarrow>
          Inr (upd self (\<lambda>b. b\<lparr>attrs := (attrs b)(name := v')\<rparr>)
                 (w\<lparr>log := log w @ fst (validate name v)\<rparr>)))"

text \<open>The values \<^verbatim>\<open>__init__\<close> assigns; each of them passes the checks.\<close>

definition init_attrs :: "attr \<Rightarrow> pyval" where
  "init_attrs name =
     (case name of
        Title \<Rightarrow> PyUnicode []
      | Page \<Rightarrow> PyInt 0
      | Italic \<Rightarrow> PyBool False
      | Bold \<Rightarrow> PyBool False
      | Open \<Rightarrow> PyBool True
      | _ \<Rightarrow> PyNone)"

definition init_bookmark :: bookmark where
  "init_bookmark =
     \<lparr>attrs = init_attrs, n_level = 0, n_children = [], n_parent = None,
      n_childnumber = 0, n_seen = Map.empty, n_iteritem = None, n_delete = False\<rparr>"

text \<open>\<^verbatim>\<open>Bookmark()\<close>: a new object at the next unused address.\<close>

definition Bookmark :: "world \<Rightarrow> addr \<times> world" where
  "Bookmark w = (fresh w, w\<lparr>heap := (heap w)(fresh w := init_bookmark), fresh := Suc (fresh w)\<rparr>)"

definition level :: "world \<Rightarrow> addr \<Rightarrow> int" where
  "level w a = n_level (heap w a)"

definition children :: "world \<Rightarrow> addr \<Rightarrow> addr list" where
  "children w a = n_children (heap w a)"

definition parent :: "world \<Rightarrow> addr \<Rightarrow> addr option" where
  "parent w a = n_parent (heap w a)"

definition is_root :: "world \<Rightarrow> addr \<Rightarrow> bool" where
  "is_root w a = (n_parent (heap w a) = None)"

definition has_children :: "world \<Rightarrow> addr \<Rightarrow> bool" where
  "has_children w a = (length (n_children (heap w a)) > 0)"

text \<open>
  Python indexing \<^verbatim>\<open>xs[i]\<close>, the assignment \<^verbatim>\<open>xs[i] = v\<close> and the slice
  \<^verbatim>\<open>xs[i:]\<close>: a negative index counts from the end; the first two raise
  \<^verbatim>\<open>IndexError\<close> out of range, the slice clips.
\<close>

definition py_pos :: "'a list \<Rightarrow> int \<Rightarrow> int" where
  "py_pos xs i = (if i < 0 then int (length xs) + i else i)"

definition py_index :: "'a list \<Rightarrow> int \<Rightarrow> error + 'a" where
  "py_index xs i =
     (let j = py_pos xs i in
      if 0 \<le> j \<and> j < int (length xs) then Inr (xs ! nat j) else Inl IndexError)"

definition py_assign :: "'a list \<Rightarrow> int \<Rightarrow> 'a \<Rightarrow> error + 'a list" where
  "py_assign xs i v =
     (let j = py_pos xs i in
      if 0 \<le> j \<and> j < int (length xs) then Inr (xs[nat j := v]) else Inl IndexError)"

definition py_slice_from :: "'a list \<Rightarrow> int \<Rightarrow> 'a list" where
  "py_slice_from xs i = drop (nat (py_pos xs i)) xs"

definition py_del :: "'a list \<Rightarrow> int \<Rightarrow> 'a list" where
  "py_del xs i = (let j = nat (py_pos xs i) in take j xs @ drop (Suc j) xs)"

definition child :: "world \<Rightarrow> addr \<Rightarrow> int \<Rightarrow> error + addr" where
  "child w a i = py_index (n_children (heap w a)) i"

text \<open>
  \<^verbatim>\<open>newchild\<close>. The node returned, \<^verbatim>\<open>self.child(-1)\<close>, is the one just
  appended.
\<close>

definition newchild :: "addr \<Rightarrow> world \<Rightarrow> addr \<times> world" where
  "newchild self w =
     (case Bookmark w of (c, w1) \<Rightarrow>
        let w2 = upd self (\<lambda>b. b\<lparr>n_children := n_children b @ [c]\<rparr>) w1;
            w3 = upd c (\<lambda>b. b\<lparr>n_level := level w2 self + 1\<rparr>) w2;
            w4 = upd c (\<lambda>b. b\<lparr>n_parent := Some self\<rparr>) w3;
            w5 = upd c (\<lambda>b. b\<lparr>n_childnumber := int (length (children w4 self)) - 1\<rparr>) w4
        in (c, w5))"

section \<open>The traversal protocol\<close>

text \<open>
  \<^verbatim>\<open>seen_in_run\<close> of \<^verbatim>\<open>next\<close>. The call of \<^verbatim>\<open>setdefault\<close> enters the key
  with the value 0 into the dictionary of the node when it is missing.
\<close>

definition seen_in_run :: "addr \<Rightarrow> addr \<Rightarrow> world \<Rightarrow> error + bool \<times> world" where
  "seen_in_run node startnode w =
     (let w1 = (case n_seen (heap w node) startnode of
                  None \<Rightarrow> upd node (\<lambda>b. b\<lparr>n_seen := (n_seen b)(startnode \<mapsto> 0)\<rparr>) w
                | Some k \<Rightarrow> w);
          node_iter_nr = (case n_seen (heap w node) startnode of None \<Rightarrow> 0 | Some k \<Rightarrow> k)
      in case n_seen (heap w1 startnode) startnode of
           None \<Rightarrow> Inl KeyError
         | Some r \<Rightarrow> Inr (node_iter_nr \<ge> r, w1))"

definition make_seen :: "addr \<Rightarrow> addr \<Rightarrow> world \<Rightarrow> error + world" where
  "make_seen node startnode w =
     (case n_seen (heap w startnode) startnode of
        None \<Rightarrow> Inl KeyError
      | Some r \<Rightarrow> Inr (upd node (\<lambda>b. b\<lparr>n_seen := (n_seen b)(startnode \<mapsto> r)\<rparr>) w))"

definition reset :: "addr \<Rightarrow> world \<Rightarrow> world" where
  "reset self w = upd self (\<lambda>b. b\<lparr>n_iteritem := None\<rparr>) w"

text \<open>
  The inner loop of \<^verbatim>\<open>next\<close>, over the children of the node the run is at:
  the first child not yet seen in the run, if there is one.
\<close>

fun first_unseen :: "addr list \<Rightarrow> addr \<Rightarrow> world \<Rightarrow> error + addr option \<times> world" where
  "first_unseen [] self w = Inr (None, w)"
| "first_unseen (c # cs) self w =
     (case seen_in_run c self w of
        Inl e \<Rightarrow> Inl e
      | Inr (b, w1) \<Rightarrow> if \<not> b then Inr (Some c, w1) else first_unseen cs self w1)"

text \<open>
  The \<^verbatim>\<open>while\<close> loop of \<^verbatim>\<open>next\<close>. It climbs from \<^verbatim>\<open>self._iteritem\<close> until
  it stands on a node without parent, and leaves with the next node of the run
  (\<open>Some\<close>) or at the end of the loop (\<open>None\<close>). The loop need not end in a store
  whose parent links form a cycle: the function is partial.
\<close>

partial_function (option) climb :: "addr \<Rightarrow> world \<Rightarrow> (error + addr option \<times> world) option" where
  "climb self w =
     (case n_iteritem (heap w self) of
        None \<Rightarrow> Some (Inl AttributeError)
      | Some it \<Rightarrow>
         (case n_parent (heap w it) of
            None \<Rightarrow> Some (Inr (None, w))
          | Some p \<Rightarrow>
             (let w1 = upd self (\<lambda>b. b\<lparr>n_iteritem := Some p\<rparr>) w in
              case child w1 p (- 1) of
                Inl e \<Rightarrow> Some (Inl e)
              | Inr l \<Rightarrow>
                 (case seen_in_run l self w1 of
                    Inl e \<Rightarrow> Some (Inl e)
                  | Inr (b, w2) \<Rightarrow>
                     if \<not> b then
                       (case first_unseen (children w2 p) self w2 of
                          Inl e \<Rightarrow> Some (Inl e)
                        | Inr (Some c, w3) \<Rightarrow>
                           (case make_seen c self (upd self (\<lambda>b. b\<lparr>n_iteritem := Some c\<rparr>) w3) of
                              Inl e \<Rightarrow> Some (Inl e)
                            | Inr w4 \<Rightarrow> Some (Inr (Some c, w4)))
                        | Inr (None, w3) \<Rightarrow> climb self w3)
                     else climb self w2))))"

declare climb.simps [code]

text \<open>
  \<^verbatim>\<open>next\<close>: the next node of the run (\<open>Some\<close>), or \<^verbatim>\<open>StopIteration\<close> (\<open>None\<close>)
  after \<^verbatim>\<open>reset\<close>.
\<close>

definition next_item :: "addr \<Rightarrow> world \<Rightarrow> (error + addr option \<times> world) option" where
  "next_item self w =
     (let w1 = (if n_iteritem (heap w self) = None then
                  (let k = (case n_seen (heap w self) self of None \<Rightarrow> 0 | Some k \<Rightarrow> k) in
                   upd self (\<lambda>b. b\<lparr>n_iteritem := Some self\<rparr>)
                     (upd self (\<lambda>b. b\<lparr>n_seen := (n_seen b)(self \<mapsto> k + 1)\<rparr>) w))
                else w)
      in case n_iteritem (heap w1 self) of
           None \<Rightarrow> Some (Inl AttributeError)
         | Some it \<Rightarrow>
            (case (if has_children w1 it
                   then map_sum id (\<lambda>c. upd self (\<lambda>b. b\<lparr>n_iteritem := Some c\<rparr>) w1) (child w1 it 0)
                   else Inr w1) of
               Inl e \<Rightarrow> Some (Inl e)
             | Inr w2 \<Rightarrow>
                (case climb self w2 of
                   None \<Rightarrow> None
                 | Some (Inl e) \<Rightarrow> Some (Inl e)
                 | Some (Inr (Some n, w3)) \<Rightarrow> Some (Inr (Some n, w3))
                 | Some (Inr (None, w3)) \<Rightarrow> Some (Inr (None, reset self w3)))))"

text \<open>
  \<^verbatim>\<open>for node in start: body\<close>. \<^verbatim>\<open>__iter__\<close> returns the start node itself, and
  the loop calls its \<^verbatim>\<open>next\<close> until \<^verbatim>\<open>StopIteration\<close>. The body works on the
  local variables \<open>s\<close> of the caller and on the store; an exception it raises
  leaves the loop.
\<close>

partial_function (option) for_in ::
  "addr \<Rightarrow> (addr \<Rightarrow> 's \<Rightarrow> world \<Rightarrow> error + 's \<times> world) \<Rightarrow> 's \<Rightarrow> world
     \<Rightarrow> (error + 's \<times> world) option"
where
  "for_in start body s w =
     (case next_item start w of
        None \<Rightarrow> None
      | Some (Inl e) \<Rightarrow> Some (Inl e)
      | Some (Inr (None, w1)) \<Rightarrow> Some (Inr (s, w1))
      | Some (Inr (Some node, w1)) \<Rightarrow>
         (case body node s w1 of
            Inl e \<Rightarrow> Some (Inl e)
          | Inr (s', w2) \<Rightarrow> for_in start body s' w2))"

declare for_in.simps [code]

text \<open>The nodes a complete run from \<open>start\<close> produces, in the order of production.\<close>

definition iterate :: "addr \<Rightarrow> world \<Rightarrow> (error + addr list \<times> world) option" where
  "iterate start w = for_in start (\<lambda>node acc w. Inr (acc @ [node], w)) [] w"

section \<open>Operations on the tree\<close>

definition set_child :: "addr \<Rightarrow> int \<Rightarrow> addr \<Rightarrow> world \<Rightarrow> (error + world) option" where
  "set_child self i node w =
     (case py_assign (children w self) i node of
        Inl e \<Rightarrow> Some (Inl e)
      | Inr cs \<Rightarrow>
         (let w1 = upd self (\<lambda>b. b\<lparr>n_children := cs\<rparr>) w;
              oldlevel = level w1 node;
              w2 = upd node (\<lambda>b. b\<lparr>n_level := level w1 self + 1\<rparr>) w1
          in case for_in node
                 (\<lambda>child (s :: unit) w.
                    Inr (s, upd child
                      (\<lambda>b. b\<lparr>n_level := level w self + (level w child - oldlevel) + 1\<rparr>) w))
                 () w2 of
               None \<Rightarrow> None
             | Some (Inl e) \<Rightarrow> Some (Inl e)
             | Some (Inr (s, w3)) \<Rightarrow>
                Some (Inr (upd node (\<lambda>b. b\<lparr>n_childnumber := i\<rparr>)
                            (upd node (\<lambda>b. b\<lparr>n_parent := Some self\<rparr>) w3)))))"

text \<open>
  \<^verbatim>\<open>_obliterate_child\<close>. The \<^verbatim>\<open>IndexError\<close> of \<^verbatim>\<open>self.child(childnumber)\<close>
  is caught in the method, after the loop over the slice has run.
\<close>

definition obliterate_child :: "addr \<Rightarrow> int \<Rightarrow> world \<Rightarrow> world" where
  "obliterate_child self childnumber w =
     (let w1 = fold (\<lambda>c. upd c (\<lambda>b. b\<lparr>n_childnumber := n_childnumber b - 1\<rparr>))
                 (py_slice_from (children w self) childnumber) w
      in case child w1 self childnumber of
           Inl e \<Rightarrow> warn CantDelete (warn (NoChildWithIndex childnumber) w1)
         | Inr c \<Rightarrow>
            upd self (\<lambda>b. b\<lparr>n_children := py_del (n_children b) childnumber\<rparr>)
              (upd c (\<lambda>b. b\<lparr>n_parent := None\<rparr>) w1))"

definition obliterate :: "addr \<Rightarrow> world \<Rightarrow> world" where
  "obliterate self w =
     (case n_parent (heap w self) of
        None \<Rightarrow> w
      | Some p \<Rightarrow> obliterate_child p (n_childnumber (heap w self)) w)"

definition delete :: "addr \<Rightarrow> world \<Rightarrow> world" where
  "delete self w = upd self (\<lambda>b. b\<lparr>n_delete := True\<rparr>) w"

definition flush :: "addr \<Rightarrow> world \<Rightarrow> (error + world) option" where
  "flush self w =
     (case for_in self
             (\<lambda>node dellist w.
                Inr (if n_delete (heap w node) then dellist @ [node] else dellist, w))
             [] (reset self w) of
        None \<Rightarrow> None
      | Some (Inl e) \<Rightarrow> Some (Inl e)
      | Some (Inr (dellist, w1)) \<Rightarrow> Some (Inr (fold obliterate dellist (reset self w1))))"

text \<open>
  \<^verbatim>\<open>sys.maxint\<close>, the largest value of the type \<^verbatim>\<open>int\<close>, on a platform
  whose C type \<^verbatim>\<open>long\<close> has 64 bits; the smallest is \<^verbatim>\<open>-sys.maxint - 1\<close>.
\<close>

definition maxint :: int where
  "maxint = 9223372036854775807"

definition fits_int :: "int \<Rightarrow> bool" where
  "fits_int i = (- maxint - 1 \<le> i \<and> i \<le> maxint)"

text \<open>
  \<^verbatim>\<open>a + b\<close> for an \<^verbatim>\<open>int\<close> (or \<^verbatim>\<open>bool\<close>) \<open>a\<close>: the sum of two values of
  type \<^verbatim>\<open>int\<close> is an \<^verbatim>\<open>int\<close> when it fits and a \<^verbatim>\<open>long\<close> otherwise, the
  sum with a \<^verbatim>\<open>long\<close> is a \<^verbatim>\<open>long\<close>, and adding \<^verbatim>\<open>None\<close> or a string
  raises \<^verbatim>\<open>TypeError\<close>.
\<close>

fun int_add :: "int \<Rightarrow> pyval \<Rightarrow> error + pyval" where
  "int_add a (PyInt b) = Inr (if fits_int (a + b) then PyInt (a + b) else PyLong (a + b))"
| "int_add a (PyBool b) =
     Inr (if fits_int (a + int_of (PyBool b)) then PyInt (a + int_of (PyBool b))
          else PyLong (a + int_of (PyBool b)))"
| "int_add a (PyLong b) = Inr (PyLong (a + b))"
| "int_add a v = Inl TypeError"

text \<open>
  \<^verbatim>\<open>-k\<close> for an \<^verbatim>\<open>int\<close> \<open>k\<close>: a \<^verbatim>\<open>long\<close> when \<open>k\<close> is the smallest
  \<^verbatim>\<open>int\<close>.
\<close>

definition int_neg :: "int \<Rightarrow> pyval" where
  "int_neg k = (if fits_int (- k) then PyInt (- k) else PyLong (- k))"

definition shift_pagenumber :: "addr \<Rightarrow> pyval \<Rightarrow> world \<Rightarrow> (error + world) option" where
  "shift_pagenumber self offset w =
     (case for_in self
             (\<lambda>node (s :: unit) w.
                if isinstance_int (getattr w node Page) then
                  (case int_add (int_of (getattr w node Page)) offset of
                     Inl e \<Rightarrow> Inl e
                   | Inr v \<Rightarrow>
                      (case setattr node Page v w of
                         Inl e \<Rightarrow> Inl e
                       | Inr w1 \<Rightarrow> Inr (s, w1)))
                else Inr (s, w))
             () (reset self w) of
        None \<Rightarrow> None
      | Some (Inl e) \<Rightarrow> Some (Inl e)
      | Some (Inr (s, w1)) \<Rightarrow> Some (Inr (reset self w1)))"

text \<open>
  \<^verbatim>\<open>__iadd__\<close>. The loop runs over the list object \<^verbatim>\<open>other._children\<close> itself,
  by position, so it sees what the body does to that list.
\<close>

partial_function (option) iadd_from :: "nat \<Rightarrow> addr \<Rightarrow> addr \<Rightarrow> world \<Rightarrow> (error + world) option" where
  "iadd_from k self other w =
     (if k < length (children w other) then
        (case set_child self (- 1) (children w other ! k) (snd (newchild self w)) of
           None \<Rightarrow> None
         | Some (Inl e) \<Rightarrow> Some (Inl e)
         | Some (Inr w2) \<Rightarrow> iadd_from (Suc k) self other w2)
      else Some (Inr w))"

declare iadd_from.simps [code]

definition iadd :: "addr \<Rightarrow> addr \<Rightarrow> world \<Rightarrow> (error + world) option" where
  "iadd self other w = iadd_from 0 self other w"

text \<open>
  \<^verbatim>\<open>__len__\<close> calls itself on the children. \<open>limit\<close> is the depth of recursion
  the interpreter allows; beyond it a call raises.
\<close>

fun len :: "nat \<Rightarrow> world \<Rightarrow> addr \<Rightarrow> error + nat" where
  "len 0 w self = Inl RecursionError"
| "len (Suc limit) w self =
     fold (\<lambda>c l. case l of
                   Inl e \<Rightarrow> Inl e
                 | Inr l \<Rightarrow> (case len limit w c of Inl e \<Rightarrow> Inl e | Inr m \<Rightarrow> Inr (l + m)))
       (children w self) (Inr (length (children w self)))"

definition all_attrs :: "attr list" where
  "all_attrs = [Action, Title, Page, Destination, Named, Namedn, File, Newwindow, Uri,
                Italic, Bold, Color, Open]"

definition has_same_attrs_as :: "world \<Rightarrow> addr \<Rightarrow> addr \<Rightarrow> bool" where
  "has_same_attrs_as w self other =
     fold (\<lambda>name result. result \<and> py_eq (getattr w self name) (getattr w other name))
       all_attrs True"

text \<open>\<^verbatim>\<open>__eq__\<close>.\<close>

definition bookmark_eq :: "nat \<Rightarrow> world \<Rightarrow> addr \<Rightarrow> addr \<Rightarrow> error + bool" where
  "bookmark_eq limit w self other =
     (case len limit w self of
        Inl e \<Rightarrow> Inl e
      | Inr n \<Rightarrow>
         (case len limit w other of
            Inl e \<Rightarrow> Inl e
          | Inr m \<Rightarrow>
             Inr (if n = m then
                    (if has_same_attrs_as w self other then
                       fold (\<lambda>(selfchild, otherchild) result.
                               result \<and> has_same_attrs_as w selfchild otherchild)
                         (zip (children w self) (children w other)) True
                     else False)
                  else False)))"

text \<open>
  \<^verbatim>\<open>copy\<close>, which calls itself on the children, to the depth \<open>limit\<close>. The
  attributes are assigned in the order of the source, each through
  \<^verbatim>\<open>__setattr__\<close> (\<open>copy_attrs\<close>).
\<close>

fun copy_attrs :: "addr \<Rightarrow> addr \<Rightarrow> attr list \<Rightarrow> world \<Rightarrow> error + world" where
  "copy_attrs newnode self [] w = Inr w"
| "copy_attrs newnode self (name # names) w =
     (case setattr newnode name (getattr w self name) w of
        Inl e \<Rightarrow> Inl e
      | Inr w1 \<Rightarrow> copy_attrs newnode self names w1)"

fun copy :: "nat \<Rightarrow> addr \<Rightarrow> world \<Rightarrow> (error + addr \<times> world) option"
  and copy_children :: "nat \<Rightarrow> addr list \<Rightarrow> addr \<Rightarrow> world \<Rightarrow> (error + world) option"
where
  "copy 0 self w = Some (Inl RecursionError)"
| "copy (Suc limit) self w =
     (let newnode = fst (Bookmark w) in
      case copy_attrs newnode self all_attrs (snd (Bookmark w)) of
        Inl e \<Rightarrow> Some (Inl e)
      | Inr w2 \<Rightarrow>
         (case copy_children limit (children w2 self) newnode w2 of
            None \<Rightarrow> None
          | Some (Inl e) \<Rightarrow> Some (Inl e)
          | Some (Inr w3) \<Rightarrow> Some (Inr (newnode, w3))))"
| "copy_children limit [] newnode w = Some (Inr w)"
| "copy_children limit (c # cs) newnode w =
     (case copy limit c (snd (newchild newnode w)) of
        None \<Rightarrow> None
      | Some (Inl e) \<Rightarrow> Some (Inl e)
      | Some (Inr (cc, w2)) \<Rightarrow>
         (case set_child newnode (- 1) cc w2 of
            None \<Rightarrow> None
          | Some (Inl e) \<Rightarrow> Some (Inl e)
          | Some (Inr w3) \<Rightarrow> copy_children limit cs newnode w3))"

text \<open>\<^verbatim>\<open>__add__\<close>.\<close>

definition add :: "nat \<Rightarrow> addr \<Rightarrow> addr \<Rightarrow> world \<Rightarrow> (error + addr \<times> world) option" where
  "add limit self other w =
     (case copy limit self w of
        None \<Rightarrow> None
      | Some (Inl e) \<Rightarrow> Some (Inl e)
      | Some (Inr (result, w1)) \<Rightarrow>
         (case iadd result other w1 of
            None \<Rightarrow> None
          | Some (Inl e) \<Rightarrow> Some (Inl e)
          | Some (Inr w2) \<Rightarrow> Some (Inr (result, w2))))"

section \<open>The csv writer\<close>

text \<open>
  The strings \<^verbatim>\<open>write_csv\<close> builds are byte strings (\<open>PyStr\<close>, as the literals
  of the source are) or unicode strings (\<open>PyUnicode\<close>, as the text attributes of
  a node are).

  \<^verbatim>\<open>a + b\<close> on strings: a byte string joined with a unicode string is decoded
  as ASCII first.
\<close>

fun py_concat :: "pyval \<Rightarrow> pyval \<Rightarrow> error + pyval" where
  "py_concat (PyStr a) (PyStr b) = Inr (PyStr (a @ b))"
| "py_concat (PyUnicode a) (PyUnicode b) = Inr (PyUnicode (a @ b))"
| "py_concat (PyStr a) (PyUnicode b) =
     (if is_ascii a then Inr (PyUnicode (a @ b)) else Inl UnicodeDecodeError)"
| "py_concat (PyUnicode a) (PyStr b) =
     (if is_ascii b then Inr (PyUnicode (a @ b)) else Inl UnicodeDecodeError)"
| "py_concat a b = Inl TypeError"

text \<open>
  \<^verbatim>\<open>x + y\<close> for two expressions: \<open>x\<close> is evaluated, then \<open>y\<close>, then they are
  joined.
\<close>

definition py_plus :: "error + pyval \<Rightarrow> error + pyval \<Rightarrow> error + pyval" where
  "py_plus x y =
     (case x of
        Inl e \<Rightarrow> Inl e
      | Inr a \<Rightarrow> (case y of Inl e \<Rightarrow> Inl e | Inr b \<Rightarrow> py_concat a b))"

text \<open>A string literal of the source.\<close>

definition str_lit :: "string \<Rightarrow> error + pyval" where
  "str_lit s = Inr (PyStr (u s))"

text \<open>\<^verbatim>\<open>str(v)\<close> and \<^verbatim>\<open>unicode(v)\<close>.\<close>

fun py_str :: "pyval \<Rightarrow> error + pyval" where
  "py_str (PyUnicode s) = (if is_ascii s then Inr (PyStr s) else Inl UnicodeEncodeError)"
| "py_str (PyStr s) = Inr (PyStr s)"
| "py_str (PyInt i) = Inr (PyStr (str_int i))"
| "py_str (PyLong i) = Inr (PyStr (str_int i))"
| "py_str (PyBool b) = Inr (PyStr (if b then u ''True'' else u ''False''))"
| "py_str PyNone = Inr (PyStr (u ''None''))"

definition py_unicode :: "pyval \<Rightarrow> error + pyval" where
  "py_unicode v =
     (case to_unicode v of None \<Rightarrow> Inl UnicodeDecodeError | Some s \<Rightarrow> Inr (PyUnicode s))"

text \<open>The truth value of \<open>v\<close> in \<^verbatim>\<open>if v:\<close>.\<close>

fun truthy :: "pyval \<Rightarrow> bool" where
  "truthy PyNone = False"
| "truthy (PyBool b) = b"
| "truthy (PyInt i) = (i \<noteq> 0)"
| "truthy (PyLong i) = (i \<noteq> 0)"
| "truthy (PyUnicode s) = (s \<noteq> [])"
| "truthy (PyStr s) = (s \<noteq> [])"

text \<open>
  \<^verbatim>\<open>s.strip()\<close> of a string: a byte string loses the ASCII white space at its
  ends, a unicode string the characters of \<open>isspace\<close>.
\<close>

definition isspace_byte :: "nat \<Rightarrow> bool" where
  "isspace_byte c = ((9 \<le> c \<and> c \<le> 13) \<or> c = 32)"

fun py_strip :: "pyval \<Rightarrow> pyval" where
  "py_strip (PyUnicode s) = PyUnicode (strip s)"
| "py_strip (PyStr s) = PyStr (rev (dropWhile isspace_byte (rev (dropWhile isspace_byte s))))"
| "py_strip v = v"

text \<open>
  \<^verbatim>\<open>escape(s)\<close> of \<^verbatim>\<open>write_csv\<close> on a value. The loop runs over the characters
  of a string, and over nothing else. \<^verbatim>\<open>''.join(result)\<close> is a byte string
  when every piece is one: when \<open>s\<close> is a byte string, or every character of
  \<open>s\<close> was replaced.
\<close>

definition is_escaped :: "uchar \<Rightarrow> bool" where
  "is_escaped c = (c < 32 \<or> c \<in> set escape_set)"

fun escape_val :: "pyval \<Rightarrow> error + pyval" where
  "escape_val (PyUnicode s) =
     Inr (if list_all is_escaped s then PyStr (escape s) else PyUnicode (escape s))"
| "escape_val (PyStr s) = Inr (PyStr (escape s))"
| "escape_val v = Inl TypeError"

text \<open>
  \<^verbatim>\<open>outfile.write(s)\<close>: the file was opened with \<^verbatim>\<open>codecs.open\<close> for UTF-8,
  and takes unicode text; a byte string is decoded as ASCII first. The result is
  the text that goes to the file.
\<close>

fun file_write :: "pyval \<Rightarrow> error + unicode" where
  "file_write (PyUnicode s) = Inr s"
| "file_write (PyStr s) = (if is_ascii s then Inr s else Inl UnicodeDecodeError)"
| "file_write v = Inl TypeError"

text \<open>
  Calls of \<^verbatim>\<open>outfile.write\<close> one after the other, each on the value of an
  expression: the text written by all of them, or the first exception.
\<close>

fun write_all :: "(error + pyval) list \<Rightarrow> error + unicode" where
  "write_all [] = Inr []"
| "write_all (x # xs) =
     (case x of
        Inl e \<Rightarrow> Inl e
      | Inr v \<Rightarrow>
         (case file_write v of
            Inl e \<Rightarrow> Inl e
          | Inr t \<Rightarrow> (case write_all xs of Inl e \<Rightarrow> Inl e | Inr ts \<Rightarrow> Inr (t @ ts))))"

text \<open>
  The value of \<^verbatim>\<open>moreopts_string\<close> before \<^verbatim>\<open>escape\<close> is applied to it. Each
  definition is one \<^verbatim>\<open>if\<close> of the source, from the string \<open>m\<close> so far. The
  character 34 is the double quote.
\<close>

definition has_destination :: "world \<Rightarrow> addr \<Rightarrow> bool" where
  "has_destination w node =
     (getattr w node Destination \<noteq> PyNone \<and> \<not> py_eq (getattr w node Destination) (PyStr []))"

definition moreopts_action :: "world \<Rightarrow> addr \<Rightarrow> error + pyval \<Rightarrow> error + pyval" where
  "moreopts_action w node m =
     (if \<not> py_eq (getattr w node Action) (PyStr (u ''GoTo'')) \<and> getattr w node Action \<noteq> PyNone
      then
        (let m1 = py_plus m (py_plus (py_plus (Inr (PyStr (u ''Action='' @ [34])))
                                  (py_str (getattr w node Action)))
                            (Inr (PyStr [34, 32])))
         in if list_ex (py_eq (getattr w node Action)) [PyStr (u ''GoTo''), PyStr (u ''GoToR'')]
            then
              (let m2 = py_plus m1 (py_plus (Inr (PyStr (u ''Page='' @ [34])))
                                   (py_str (getattr w node Page)));
                   m3 = (if has_destination w node
                         then py_plus m2 (py_plus (str_lit '' '') (py_unicode (getattr w node Destination)))
                         else m2)
               in py_plus m3 (Inr (PyStr [34, 32])))
            else m1)
      else m)"

definition moreopts_text :: "string \<Rightarrow> pyval \<Rightarrow> error + pyval \<Rightarrow> error + pyval" where
  "moreopts_text key v m =
     (if v \<noteq> PyNone
      then py_plus m (py_plus (py_plus (Inr (PyStr (u key @ [61, 34]))) (Inr v)) (Inr (PyStr [34, 32])))
      else m)"

definition moreopts_string :: "world \<Rightarrow> addr \<Rightarrow> error + pyval" where
  "moreopts_string w node =
     moreopts_text ''Color'' (getattr w node Color)
       (moreopts_text ''URI'' (getattr w node Uri)
         (moreopts_text ''File'' (getattr w node File)
           (moreopts_action w node (str_lit ''''))))"

text \<open>The calls of \<^verbatim>\<open>outfile.write\<close> for the last group of a line.\<close>

definition moreopts_writes :: "world \<Rightarrow> addr \<Rightarrow> (error + pyval) list" where
  "moreopts_writes w node =
     (if \<not> py_eq (getattr w node Action) (PyStr (u ''GoTo'')) \<or> getattr w node File \<noteq> PyNone
         \<or> getattr w node Uri \<noteq> PyNone \<or> getattr w node Color \<noteq> PyNone
      then
        (case moreopts_string w node of
           Inl e \<Rightarrow> [Inl e]
         | Inr m \<Rightarrow>
            (case escape_val (py_strip m) of
               Inl e \<Rightarrow> [Inl e]
             | Inr escaped_moreopts \<Rightarrow>
                if \<not> py_eq escaped_moreopts (PyStr [])
                then [str_lit '';'', escape_val (py_strip m)]
                else []))
      else [])"

text \<open>
  The body of the loop of \<^verbatim>\<open>write_csv\<close> for one node: the calls of
  \<^verbatim>\<open>outfile.write\<close> in the order of the source. Only the title and the last
  group go through \<^verbatim>\<open>escape\<close>.
\<close>

definition csv_writes :: "world \<Rightarrow> addr \<Rightarrow> (error + pyval) list" where
  "csv_writes w node =
     [py_plus (py_str (PyInt (level w node))) (str_lit '';'')]
     @ (if truthy (getattr w node Open) then [str_lit ''O''] else [])
     @ (if truthy (getattr w node Bold) then [str_lit ''B''] else [])
     @ (if truthy (getattr w node Italic) then [str_lit ''I''] else [])
     @ [str_lit '';'']
     @ [py_plus (escape_val (getattr w node Title)) (str_lit '';'')]
     @ (if py_eq (getattr w node Action) (PyStr (u ''GoTo''))
        then [py_str (getattr w node Page)]
             @ (if has_destination w node
                then [py_plus (str_lit '' '') (py_unicode (getattr w node Destination))]
                else [])
        else [str_lit ''0''])
     @ moreopts_writes w node
     @ [Inr (PyStr [10])]"

text \<open>
  \<^verbatim>\<open>write_csv(root, outfilename)\<close>: the text written to the file, which is then
  encoded as UTF-8.
\<close>

definition write_csv :: "addr \<Rightarrow> world \<Rightarrow> (error + unicode \<times> world) option" where
  "write_csv root w =
     for_in root
       (\<lambda>node out w. case write_all (csv_writes w node) of
                        Inl e \<Rightarrow> Inl e
                      | Inr t \<Rightarrow> Inr (out @ t, w))
       [] w"

section \<open>What the checks of an assignment come to\<close>








text \<open>The state after a statement that returned.\<close>

definition after :: "error + world \<Rightarrow> world option" where
  "after r = (case r of Inl e \<Rightarrow> None | Inr w \<Rightarrow> Some w)"

section \<open>Concrete programs\<close>

text \<open>The state before the first object is made.\<close>

definition empty_world :: world where
  "empty_world = \<lparr>heap = (\<lambda>a. init_bookmark), fresh = 0, log = []\<rparr>"


text \<open>
  \<^verbatim>\<open>root = Bookmark(); A = root.newchild(); B = root.newchild()\<close>: the root has
  the address 0, \<open>A\<close> is 1 and \<open>B\<close> is 2.
\<close>

definition w_ab :: world where
  "w_ab = snd (newchild 0 (snd (newchild 0 (snd (Bookmark empty_world)))))"

text \<open>
  Two trees of the same shape, \<open>root \<rightarrow> A \<rightarrow> A1\<close>: the first at the addresses 0, 1,
  2 and the second at 3, 4, 5. They differ in the title of \<open>A1\<close> only, which is
  \<^verbatim>\<open>x\<close> in the first and \<^verbatim>\<open>y\<close> in the second.
\<close>

definition w_chain :: "world \<Rightarrow> world" where
  "w_chain w = snd (newchild (fresh w + 1) (snd (newchild (fresh w) (snd (Bookmark w)))))"

definition w_xy :: world where
  "w_xy = the (after (setattr 5 Title (PyUnicode (u ''y''))
            (the (after (setattr 2 Title (PyUnicode (u ''x'')) (w_chain (w_chain empty_world)))))))"

text \<open>
  Two trees \<open>B\<close> and \<open>C\<close>: \<open>B\<close> is the root 0 with the child 1; \<open>C\<close> is the root 2
  with the children 3 and 4, and 3 has the child 5.
\<close>

definition w_bc :: world where
  "w_bc = snd (newchild 3 (snd (newchild 2 (snd (newchild 2 (snd (Bookmark
            (snd (newchild 0 (snd (Bookmark empty_world)))))))))))"

text \<open>The world of a call that returned, and its value.\<close>

definition world_of :: "(error + 'a \<times> world) option \<Rightarrow> world" where
  "world_of r = (case r of Some (Inr (x, w)) \<Rightarrow> w | _ \<Rightarrow> empty_world)"

definition value_of :: "(error + 'a \<times> world) option \<Rightarrow> 'a option" where
  "value_of r = (case r of Some (Inr (x, w)) \<Rightarrow> Some x | _ \<Rightarrow> None)"

definition returned :: "(error + world) option \<Rightarrow> world option" where
  "returned r = (case r of Some (Inr w) \<Rightarrow> Some w | _ \<Rightarrow> None)"

text \<open>
  \<^verbatim>\<open>c = b.copy()\<close> for the tree \<open>b\<close> of \<open>w_ab\<close>. The copy of the root is 3, the
  copies of \<open>A\<close> and \<open>B\<close> are 5 and 7 (4 and 6 are the nodes \<^verbatim>\<open>newchild\<close> makes
  and \<^verbatim>\<open>set_child\<close> replaces).
\<close>

definition w_copy :: world where
  "w_copy = world_of (copy 10 0 w_ab)"


text \<open>
  \<^verbatim>\<open>root = Bookmark(); n = root.newchild(); n.title = u"a:b;c"\<close>,
  \<^verbatim>\<open>n.action = u"GoTo"; n.page = 3; n.destination = u"Fit;x"\<close>: the root is 0
  and \<open>n\<close> is 1.
\<close>

definition w_csv :: world where
  "w_csv = the (after (setattr 1 Destination (PyUnicode (u ''Fit;x''))
             (the (after (setattr 1 Page (PyInt 3)
               (the (after (setattr 1 Action (PyUnicode (u ''GoTo''))
                 (the (after (setattr 1 Title (PyUnicode (u ''a:b;c''))
                   (snd (newchild 0 (snd (Bookmark empty_world)))))))))))))))"
section \<open>Trees in the store\<close>

text \<open>
  The shape of a tree of bookmarks, as a value: a node is the address of a
  bookmark and the trees of its children, in order.
\<close>

datatype tree = Node addr "tree list"

fun root_of :: "tree \<Rightarrow> addr" where
  "root_of (Node a ts) = a"

fun subtrees :: "tree \<Rightarrow> tree list" where
  "subtrees (Node a ts) = ts"

fun preorder :: "tree \<Rightarrow> addr list" where
  "preorder (Node a ts) = a # concat (map preorder ts)"

text \<open>The proper descendants of the root of a tree, in preorder.\<close>

definition descendants :: "tree \<Rightarrow> addr list" where
  "descendants t = concat (map preorder (subtrees t))"

text \<open>
  \<open>is_tree w par t\<close>: in the store of \<open>w\<close> the bookmark at the root of \<open>t\<close> has
  the parent link \<open>par\<close> and the children \<open>t\<close> gives it, and so on below.
\<close>

fun is_tree :: "world \<Rightarrow> addr option \<Rightarrow> tree \<Rightarrow> bool" where
  "is_tree w par (Node a ts) =
     (n_parent (heap w a) = par \<and> n_children (heap w a) = map root_of ts \<and>
      list_all (is_tree w (Some a)) ts)"

text \<open>
  The number of the run from \<open>start\<close> in which \<open>x\<close> was last seen; a missing
  entry counts as 0, as \<^verbatim>\<open>setdefault\<close> makes it.
\<close>

definition stamp :: "world \<Rightarrow> addr \<Rightarrow> addr \<Rightarrow> int" where
  "stamp w x start = (case n_seen (heap w x) start of None \<Rightarrow> 0 | Some k \<Rightarrow> k)"

text \<open>The state without the bookkeeping of the traversal.\<close>

definition forget :: "world \<Rightarrow> world" where
  "forget w = w\<lparr>heap := (\<lambda>a. (heap w a)\<lparr>n_seen := Map.empty, n_iteritem := None\<rparr>)\<rparr>"

text \<open>The links of the store, and the links with the bookkeeping of the traversal.\<close>

definition links :: "world \<Rightarrow> addr \<Rightarrow> addr list \<times> addr option" where
  "links w a = (n_children (heap w a), n_parent (heap w a))"

definition shape :: "world \<Rightarrow> addr \<Rightarrow> (addr list \<times> addr option) \<times> (addr \<Rightarrow> int option) \<times> addr option" where
  "shape w a = (links w a, n_seen (heap w a), n_iteritem (heap w a))"

text \<open>
  What \<^verbatim>\<open>for node in start\<close> does with the outcome of the \<^verbatim>\<open>while\<close> loop of
  \<^verbatim>\<open>next\<close>: the loop ends after \<^verbatim>\<open>reset\<close>, or runs its body on the node found
  and goes on.
\<close>

definition after_climb ::
  "addr \<Rightarrow> (addr \<Rightarrow> 's \<Rightarrow> world \<Rightarrow> error + 's \<times> world) \<Rightarrow> 's
     \<Rightarrow> (error + addr option \<times> world) option \<Rightarrow> (error + 's \<times> world) option" where
  "after_climb start body s r =
     (case r of
        None \<Rightarrow> None
      | Some (Inl e) \<Rightarrow> Some (Inl e)
      | Some (Inr (None, w)) \<Rightarrow> Some (Inr (s, reset start w))
      | Some (Inr (Some node, w)) \<Rightarrow>
          (case body node s w of
             Inl e \<Rightarrow> Some (Inl e)
           | Inr (s', w') \<Rightarrow> for_in start body s' w'))"

text \<open>The store after \<^verbatim>\<open>node._seen.setdefault(id(start), 0)\<close>.\<close>

definition touch :: "addr \<Rightarrow> addr \<Rightarrow> world \<Rightarrow> world" where
  "touch node start w =
     (case n_seen (heap w node) start of
        None \<Rightarrow> upd node (\<lambda>b. b\<lparr>n_seen := (n_seen b)(start \<mapsto> 0)\<rparr>) w
      | Some k \<Rightarrow> w)"

text \<open>
  Two states of one run from \<open>start\<close> that differ in the bookkeeping only, and
  agree on what every node was last seen in.
\<close>

definition bk :: "addr \<Rightarrow> world \<Rightarrow> world \<Rightarrow> bool" where
  "bk start w w' =
     (forget w' = forget w \<and> (\<forall>x. stamp w' x start = stamp w x start) \<and>
      n_seen (heap w' start) start = n_seen (heap w start) start)"

text \<open>
  What a loop over a tree needs of its body and of an invariant \<open>Inv\<close>, which
  speaks of the nodes the body has run on so far: the invariant does not depend
  on the bookkeeping of the traversal, and from a state with the invariant the
  body returns, leaves the links and that bookkeeping alone, and takes the
  invariant from the nodes done to the nodes done and the next one. \<open>D\<close> is the
  list of all nodes of the loop.
\<close>

definition loop_ok ::
  "(addr \<Rightarrow> 's \<Rightarrow> world \<Rightarrow> error + 's \<times> world) \<Rightarrow> (addr list \<Rightarrow> 's \<Rightarrow> world \<Rightarrow> bool)
     \<Rightarrow> addr list \<Rightarrow> bool"
where
  "loop_ok body Inv D =
     ((\<forall>done s w w'. Inv done s w \<longrightarrow> forget w' = forget w \<longrightarrow> Inv done s w') \<and>
      (\<forall>done n rest s w. Inv done s w \<longrightarrow> D = done @ n # rest \<longrightarrow>
          (\<exists>s' w'. body n s w = Inr (s', w') \<and> shape w' = shape w \<and>
                   Inv (done @ [n]) s' w')))"

text \<open>The run number \<open>k\<close> from \<open>start\<close> is under way and stands at the node \<open>a\<close>.\<close>

definition mid_run :: "addr \<Rightarrow> int \<Rightarrow> addr \<Rightarrow> world \<Rightarrow> bool" where
  "mid_run start k a w =
     (n_seen (heap w start) start = Some k \<and> n_iteritem (heap w start) = Some a)"

text \<open>
  From \<open>w\<close> to \<open>w'\<close> the links are the same and exactly the nodes \<open>xs\<close> have been
  marked as seen in the run \<open>k\<close>.
\<close>

definition visited :: "addr \<Rightarrow> int \<Rightarrow> world \<Rightarrow> addr list \<Rightarrow> world \<Rightarrow> bool" where
  "visited start k w xs w' =
     (links w' = links w \<and>
      (\<forall>x. stamp w' x start = (if x \<in> set xs then k else stamp w x start)))"

text \<open>
  The loop, standing at the root of \<open>t\<close> with the nodes below it unseen, runs
  its body on the descendants of \<open>t\<close> in preorder and then stands at the root
  of \<open>t\<close> again, about to climb.
\<close>

definition visits ::
  "addr \<Rightarrow> (addr \<Rightarrow> 's \<Rightarrow> world \<Rightarrow> error + 's \<times> world)
     \<Rightarrow> (addr list \<Rightarrow> 's \<Rightarrow> world \<Rightarrow> bool) \<Rightarrow> addr list \<Rightarrow> int \<Rightarrow> tree \<Rightarrow> bool"
where
  "visits start body Inv D k t =
     (\<forall>w s done par post.
        is_tree w par t \<longrightarrow> mid_run start k (root_of t) w \<longrightarrow>
        (\<forall>x\<in>set (descendants t). stamp w x start < k) \<longrightarrow>
        Inv done s w \<longrightarrow> D = done @ descendants t @ post \<longrightarrow>
        (\<exists>s' w'. for_in start body s w = after_climb start body s' (climb start w') \<and>
                 mid_run start k (root_of t) w' \<and> visited start k w (descendants t) w' \<and>
                 Inv (done @ descendants t) s' w'))"

text \<open>
  The loop of \<^verbatim>\<open>shift_pagenumber\<close>. \<open>shift_body\<close> is its body, \<open>new_page\<close>
  the page a node has after the body has run on it, and \<open>page_warning\<close> what
  the body writes. \<open>shifted\<close> is the invariant of the loop: the nodes done
  have their new page, the other nodes are as in the state \<open>w0\<close> before the
  loop, and the warnings for the nodes done have been written.
\<close>

definition is_number :: "pyval \<Rightarrow> bool" where
  "is_number v = (case v of PyInt i \<Rightarrow> True | PyLong i \<Rightarrow> True | PyBool b \<Rightarrow> True | _ \<Rightarrow> False)"

definition shift_body :: "pyval \<Rightarrow> addr \<Rightarrow> unit \<Rightarrow> world \<Rightarrow> error + unit \<times> world" where
  "shift_body offset = (\<lambda>node (s :: unit) w.
                if isinstance_int (getattr w node Page) then
                  (case int_add (int_of (getattr w node Page)) offset of
                     Inl e \<Rightarrow> Inl e
                   | Inr v \<Rightarrow>
                      (case setattr node Page v w of
                         Inl e \<Rightarrow> Inl e
                       | Inr w1 \<Rightarrow> Inr (s, w1)))
                else Inr (s, w))"

definition new_page :: "pyval \<Rightarrow> pyval \<Rightarrow> pyval" where
  "new_page offset p =
     (if isinstance_int p then
        (case int_add (int_of p) offset of
           Inl e \<Rightarrow> p
         | Inr v \<Rightarrow> if \<not> isinstance_int v \<or> int_of v < 0 then PyInt 0 else v)
      else p)"

definition page_warning :: "pyval \<Rightarrow> pyval \<Rightarrow> diag list" where
  "page_warning offset p =
     (if isinstance_int p then
        (case int_add (int_of p) offset of
           Inl e \<Rightarrow> []
         | Inr v \<Rightarrow> if \<not> isinstance_int v \<or> int_of v < 0 then [PageSetToZero] else [])
      else [])"

definition shifted :: "pyval \<Rightarrow> world \<Rightarrow> addr list \<Rightarrow> unit \<Rightarrow> world \<Rightarrow> bool" where
  "shifted offset w0 done s w =
     ((\<forall>x. attrs (heap w x) =
           (if x \<in> set done
            then (attrs (heap w0 x))(Page := new_page offset (attrs (heap w0 x) Page))
            else attrs (heap w0 x))) \<and>
      log w = log w0 @ concat (map (\<lambda>x. page_warning offset (attrs (heap w0 x) Page)) done))"

text \<open>
  The tree \<open>root \<rightarrow> A, B\<close> of \<open>w_ab\<close> as a value, with the pages 10 and 3
  given to \<open>A\<close> and \<open>B\<close>, and with the largest \<^verbatim>\<open>int\<close> as the page of \<open>A\<close>.
\<close>

definition t_ab :: tree where
  "t_ab = Node 0 [Node 1 [], Node 2 []]"

definition w_pages :: world where
  "w_pages = the (after (setattr 2 Page (PyInt 3) (the (after (setattr 1 Page (PyInt 10) w_ab)))))"

definition w_maxpage :: world where
  "w_maxpage = the (after (setattr 1 Page (PyInt maxint) w_ab))"

section \<open>Properties of the escape scheme\<close>

lemma hex_digits_small: "n < 16 \<Longrightarrow> hex_digits n = [hexchar n]"
  by (simp add: hex_digits.simps)

lemma hex_digits_two:
  assumes "16 \<le> n" "n < 256"
  shows "hex_digits n = [hexchar (n div 16), hexchar (n mod 16)]"
proof -
  have "n div 16 < 16" using assms by simp
  then have "hex_digits (n div 16) = [hexchar (n div 16)]" by (rule hex_digits_small)
  moreover have "hex_digits n = hex_digits (n div 16) @ [hexchar (n mod 16)]"
    using assms by (subst hex_digits.simps) simp
  ultimately show ?thesis by simp
qed

lemma upper_hexchar: "d < 16 \<Longrightarrow> upper_char (hexchar d) = HEXCHAR d"
  by (simp add: upper_char_def hexchar_def HEXCHAR_def)

lemma HEXCHAR_in_hexdigits: "d < 16 \<Longrightarrow> HEXCHAR d \<in> set hexdigits"
proof -
  assume "d < 16"
  moreover have "list_all (\<lambda>d. HEXCHAR d \<in> set hexdigits) [0..<16]" by code_simp
  ultimately show ?thesis by (simp add: list_all_iff)
qed

lemma escape_char_small:
  assumes "c < 16"
  shows "escape_char c = [92, 48, HEXCHAR c]"
proof -
  have h: "upper (last2 (hex c)) = [88, HEXCHAR c]"
    using assms by (simp add: hex_def hex_digits_small last2_def upper_def upper_hexchar)
      (simp add: upper_char_def)
  have "(88::nat) \<notin> set hexdigits" by (simp add: hexdigits_def u_def)
  then show ?thesis using assms by (simp add: escape_char_def h)
qed

lemma escape_char_two:
  assumes "16 \<le> c" "c < 256" "c < 32 \<or> c \<in> set escape_set"
  shows "escape_char c = [92, HEXCHAR (c div 16), HEXCHAR (c mod 16)]"
proof -
  have d: "c div 16 < 16" using assms by simp
  have h: "upper (last2 (hex c)) = [HEXCHAR (c div 16), HEXCHAR (c mod 16)]"
    using assms d by (simp add: hex_def hex_digits_two last2_def upper_def upper_hexchar)
  have "HEXCHAR (c div 16) \<in> set hexdigits" using d by (rule HEXCHAR_in_hexdigits)
  then show ?thesis using assms(3) by (simp add: escape_char_def h)
qed

lemma escape_char_spec:
  "escape_char c =
     (if c < 32 \<or> c = 92 \<or> c = 59 \<or> c = 34 \<or> c = 39
      then [92, HEXCHAR (c div 16), HEXCHAR (c mod 16)] else [c])"
proof (cases "c < 32 \<or> c \<in> set escape_set")
  case False
  then show ?thesis by (simp add: escape_char_def escape_set_def)
next
  case True
  then have lt: "c < 256" by (auto simp: escape_set_def)
  show ?thesis
  proof (cases "c < 16")
    case True
    then have "c div 16 = 0" "c mod 16 = c" by simp_all
    with True show ?thesis by (simp add: escape_char_small HEXCHAR_def)
  next
    case False
    then have "16 \<le> c" by simp
    from escape_char_two [OF this lt True] True show ?thesis
      by (auto simp: escape_set_def)
  qed
qed

text \<open>
  What \<^verbatim>\<open>escape\<close> does, character by character: the control characters
  (code below 32) and the backslash, the semicolon, the double quote and the
  single quote become a backslash and the two upper-case hexadecimal digits of
  their code; every other character, the colon among them, stays as it is.
\<close>

lemma escape_scheme:
  "escape s = concat (map (\<lambda>c.
      if c < 32 \<or> c = 92 \<or> c = 59 \<or> c = 34 \<or> c = 39
      then [92, HEXCHAR (c div 16), HEXCHAR (c mod 16)] else [c]) s)"
proof -
  have "escape_char = (\<lambda>c.
      if c < 32 \<or> c = 92 \<or> c = 59 \<or> c = 34 \<or> c = 39
      then [92, HEXCHAR (c div 16), HEXCHAR (c mod 16)] else [c])"
    by (rule ext) (rule escape_char_spec)
  then show ?thesis unfolding escape_def by simp
qed

section \<open>Attribute validation\<close>

lemmas check_defs = validate_def and_then_def check_page_def check_bool_def check_text_def
  check_action_def check_destination_def check_color_def warn_return_def





























section \<open>Running the operations on concrete trees\<close>

lemma len_numeral:
  "len (numeral k) w self =
     fold (\<lambda>c l. case l of
                   Inl e \<Rightarrow> Inl e
                 | Inr l \<Rightarrow> (case len (pred_numeral k) w c of Inl e \<Rightarrow> Inl e | Inr m \<Rightarrow> Inr (l + m)))
       (children w self) (Inr (length (children w self)))"
  by (simp add: numeral_eq_Suc)

lemma copy_numeral:
  "copy (numeral k) self w =
     (let newnode = fst (Bookmark w) in
      case copy_attrs newnode self all_attrs (snd (Bookmark w)) of
        Inl e \<Rightarrow> Some (Inl e)
      | Inr w2 \<Rightarrow>
         (case copy_children (pred_numeral k) (children w2 self) newnode w2 of
            None \<Rightarrow> None
          | Some (Inl e) \<Rightarrow> Some (Inl e)
          | Some (Inr w3) \<Rightarrow> Some (Inr (newnode, w3))))"
  by (simp add: numeral_eq_Suc)

text \<open>
  The equations that run a program on a concrete state. They are used with the
  weak congruence rule for \<open>let\<close>, so that a bound value is computed before the
  body that uses it.
\<close>

lemmas ev = w_ab_def w_xy_def w_chain_def w_bc_def w_copy_def world_of_def value_of_def
  returned_def empty_world_def Bookmark_def newchild_def upd_def iterate_def for_in.simps
  next_item_def climb.simps child_def py_index_def py_pos_def py_assign_def py_slice_from_def
  py_del_def seen_in_run_def make_seen_def reset_def has_children_def children_def level_def
  parent_def is_root_def init_bookmark_def Let_def set_child_def obliterate_child_def
  obliterate_def delete_def flush_def iadd_def iadd_from.simps getattr_def warn_def
  len_numeral copy_numeral setattr_def validate_def and_then_def check_page_def
  check_bool_def check_text_def check_action_def check_destination_def check_color_def
  all_attrs_def init_attrs_def has_same_attrs_as_def bookmark_eq_def actions_def u_def
  after_def warn_return_def

text \<open>
  C1. In the tree \<open>root \<rightarrow> A, B\<close> the node \<open>A\<close> has no descendants, and \<open>B\<close> is its
  sibling. A complete run started at \<open>A\<close> produces \<open>B\<close>: the loop of \<^verbatim>\<open>next\<close>
  climbs until it reaches the root of the tree, not until it is back at the
  start node.
\<close>

theorem iterate_from_child_yields_sibling:
  "children w_ab 0 = [1, 2] \<and> children w_ab 1 = [] \<and> parent w_ab 1 = Some 0 \<and>
   parent w_ab 2 = Some 0 \<and> value_of (iterate 1 w_ab) = Some [2]"
  by (simp add: ev cong: let_weak_cong)

text \<open>
  C2. Two complete runs from \<open>A\<close> in sequence produce the same nodes, but their
  number, 1, is not \<^verbatim>\<open>len(A)\<close>, which is 0.
\<close>

theorem iterate_length_differs_from_len:
  "value_of (iterate 1 w_ab) = Some [2] \<and>
   value_of (iterate 1 (world_of (iterate 1 w_ab))) = Some [2] \<and>
   len 10 w_ab 1 = Inr 0"
  by (simp add: ev cong: let_weak_cong)

text \<open>
  C3. The two trees of \<open>w_xy\<close> have the same size, and their nodes in preorder
  are 1, 2 and 4, 5. The pair 2, 5 differs in the title, yet \<^verbatim>\<open>==\<close> holds:
  \<^verbatim>\<open>__eq__\<close> compares the two roots and their immediate children only.
\<close>

theorem eq_ignores_grandchildren:
  "len 10 w_xy 0 = Inr 2 \<and> len 10 w_xy 3 = Inr 2 \<and>
   value_of (iterate 0 w_xy) = Some [1, 2] \<and> value_of (iterate 3 w_xy) = Some [4, 5] \<and>
   has_same_attrs_as w_xy 1 4 \<and> \<not> has_same_attrs_as w_xy 2 5 \<and>
   bookmark_eq 10 w_xy 0 3 = Inr True"
  by (simp add: ev cong: let_weak_cong)

text \<open>
  C5. In the copy of \<open>root \<rightarrow> A, B\<close> the copy of \<open>A\<close> (node 5) is flagged and the
  root of the copy (node 3) is flushed. The flagged node stays in the child list
  and keeps its parent; its sibling 7, which was not flagged, is detached.
\<close>

theorem flush_after_copy_detaches_sibling:
  "children w_copy 3 = [5, 7] \<and>
   map_option (\<lambda>w. (children w 3, parent w 5, parent w 7)) (returned (flush 3 (delete 5 w_copy)))
     = Some ([5], Some 3, None)"
  by (simp add: ev cong: let_weak_cong)

text \<open>
  C7. \<^verbatim>\<open>copy\<close> and \<^verbatim>\<open>+=\<close> attach nodes with \<^verbatim>\<open>set_child(-1, node)\<close>, which
  stores the index it was given: both children of the copied root, at the
  positions 0 and 1, carry the child number -1, and so do the two nodes merged
  into \<open>B\<close> at the positions 1 and 2.
\<close>

theorem set_child_stores_negative_index:
  "children w_copy 3 = [5, 7] \<and> map (\<lambda>a. n_childnumber (heap w_copy a)) [5, 7] = [- 1, - 1] \<and>
   map_option (\<lambda>w. (children w 0, map (\<lambda>a. n_childnumber (heap w a)) [1, 3, 4]))
       (returned (iadd 0 2 w_bc))
     = Some ([1, 3, 4], [0, - 1, - 1])"
  by (simp add: ev cong: let_weak_cong)

text \<open>
  The claim C4 as worded fails in its last part: after \<^verbatim>\<open>B += C\<close> the child
  list of \<open>C\<close> (node 2) still holds the nodes 3 and 4, whose parent is now \<open>B\<close>.
\<close>

theorem iadd_keeps_children_counterexample:
  "children w_bc 2 = [3, 4] \<and>
   map_option (\<lambda>w. (children w 0, children w 2, parent w 3, parent w 4, len 10 w 0))
       (returned (iadd 0 2 w_bc))
     = Some ([1, 3, 4], [3, 4], Some 0, Some 0, Inr 4)"
  by (simp add: ev cong: let_weak_cong)

section \<open>The csv writer on a concrete tree\<close>

lemma strip_fit: "strip (u ''Fit;x'') = u ''Fit;x''"
  by (simp add: strip_def isspace_def u_def)

lemma match_fit: "re_match destpattern (u ''Fit;x'') \<and> \<not> in_language destpattern (u ''Fit;x'')"
  by code_simp

lemma validate_fit:
  "validate Destination (PyUnicode (u ''Fit;x'')) = ([], Go (PyUnicode (u ''Fit;x'')))"
  using match_fit by (simp add: check_defs strip_fit)

lemma validate_title: "validate Title (PyUnicode s) = ([], Go (PyUnicode s))"
  by (simp add: check_defs)

lemma validate_goto:
  "validate Action (PyUnicode (u ''GoTo'')) = ([], Go (PyUnicode (u ''GoTo'')))"
  by (simp add: check_defs actions_def u_def)

lemma validate_page_3: "validate Page (PyInt 3) = ([], Go (PyInt 3))"
  by (simp add: check_defs)

lemma w_csv_eq:
  "w_csv = \<lparr>heap = (\<lambda>a. init_bookmark)
       (0 := init_bookmark\<lparr>n_children := [1]\<rparr>,
        1 := init_bookmark\<lparr>attrs := init_attrs
               (Title := PyUnicode (u ''a:b;c''), Action := PyUnicode (u ''GoTo''),
                Page := PyInt 3, Destination := PyUnicode (u ''Fit;x'')),
             n_level := 1, n_parent := Some 0, n_childnumber := 0\<rparr>),
     fresh = 2, log = []\<rparr>"
  by (simp add: w_csv_def setattr_def validate_fit validate_title validate_goto
      validate_page_3 after_def upd_def Bookmark_def newchild_def empty_world_def
      init_bookmark_def level_def children_def Let_def)

lemmas csv_defs = write_csv_def csv_writes_def moreopts_writes_def moreopts_string_def
  moreopts_text_def moreopts_action_def has_destination_def py_plus_def str_lit_def
  py_unicode_def is_escaped_def is_ascii_def

text \<open>
  C9. The docstrings of \<^verbatim>\<open>escape\<close> and \<^verbatim>\<open>unescape\<close> and the description of
  the format say that the control characters and \<^verbatim>\<open>[\:"']\<close> are escaped, in
  all fields: the colon (58) is, the semicolon (59) is not. The writer does the
  opposite: in the title \<^verbatim>\<open>a:b;c\<close> the colon is written as it is and the
  semicolon as \<^verbatim>\<open>\3B\<close>. And the field of the page and the destination does
  not go through \<^verbatim>\<open>escape\<close> at all: the semicolon of the destination
  \<^verbatim>\<open>Fit;x\<close> is written as it is. The line written for the node is
  \<^verbatim>\<open>1;O;a:b\3Bc;3 Fit;x\<close>.
\<close>

theorem write_csv_escapes_semicolon_not_colon:
  "spec_escaped 58 \<and> \<not> spec_escaped 59 \<and>
   escape (u ''a:b;c'') = u ''a:b'' @ [92] @ u ''3Bc'' \<and>
   getattr w_csv 1 Title = PyUnicode (u ''a:b;c'') \<and>
   getattr w_csv 1 Destination = PyUnicode (u ''Fit;x'') \<and>
   value_of (write_csv 0 w_csv) = Some (u ''1;O;a:b'' @ [92] @ u ''3Bc;3 Fit;x'' @ [10])"
  by (simp add: w_csv_eq escape_def escape_char_spec HEXCHAR_def escape_set_def str_int_def
      dec_digits.simps csv_defs spec_escaped_def ev cong: let_weak_cong)

section \<open>The traversal from the root of a tree\<close>

lemma heap_upd [simp]: "heap (upd a f w) = (heap w)(a := f (heap w a))"
  by (simp add: upd_def)

lemma log_upd [simp]: "log (upd a f w) = log w"
  by (simp add: upd_def)

lemma fresh_upd [simp]: "fresh (upd a f w) = fresh w"
  by (simp add: upd_def)

lemma forget_upd:
  assumes "(f (heap w a))\<lparr>n_seen := Map.empty, n_iteritem := None\<rparr>
             = (heap w a)\<lparr>n_seen := Map.empty, n_iteritem := None\<rparr>"
  shows "forget (upd a f w) = forget w"
proof -
  have "(\<lambda>x. (heap (upd a f w) x)\<lparr>n_seen := Map.empty, n_iteritem := None\<rparr>)
          = (\<lambda>x. (heap w x)\<lparr>n_seen := Map.empty, n_iteritem := None\<rparr>)"
    using assms by (auto simp: fun_eq_iff)
  then show ?thesis by (simp add: forget_def upd_def)
qed

lemma forget_links: "forget w' = forget w \<Longrightarrow> links w' = links w"
proof -
  assume h: "forget w' = forget w"
  have "\<And>v a. links v a = (n_children (heap (forget v) a), n_parent (heap (forget v) a))"
    by (simp add: links_def forget_def)
  then show ?thesis using h by (simp add: fun_eq_iff)
qed

lemma links_fields:
  "links w' = links w \<Longrightarrow> n_children (heap w' a) = n_children (heap w a)"
  "links w' = links w \<Longrightarrow> n_parent (heap w' a) = n_parent (heap w a)"
  by (auto simp: links_def fun_eq_iff)

lemma is_tree_links:
  "links w' = links w \<Longrightarrow> is_tree w' par t = is_tree w par t"
proof (induction t arbitrary: par)
  case (Node a ts)
  then have "list_all (is_tree w' (Some a)) ts = list_all (is_tree w (Some a)) ts"
    by (simp add: list_all_iff)
  moreover note links_fields(1) [OF Node.prems, of a] links_fields(2) [OF Node.prems, of a]
  ultimately show ?case by simp
qed

lemma bk_refl [simp]: "bk r w w"
  by (simp add: bk_def)

lemma bk_trans: "bk r w w1 \<Longrightarrow> bk r w1 w2 \<Longrightarrow> bk r w w2"
  by (simp add: bk_def)

lemma bk_cursor: "bk r w (upd a (\<lambda>b. b\<lparr>n_iteritem := c\<rparr>) w)"
  by (simp add: bk_def forget_upd stamp_def)

lemma bk_touch: "n_seen (heap w r) r = Some k \<Longrightarrow> bk r w (touch x r w)"
  by (cases "n_seen (heap w x) r") (auto simp: bk_def touch_def forget_upd stamp_def)

lemma touch_iteritem [simp]: "n_iteritem (heap (touch x r w) a) = n_iteritem (heap w a)"
  by (cases "n_seen (heap w x) r") (auto simp: touch_def)

lemma seen_in_run_eq:
  assumes "n_seen (heap w r) r = Some k"
  shows "seen_in_run x r w = Inr (k \<le> stamp w x r, touch x r w)"
proof (cases "n_seen (heap w x) r")
  case None
  then have "x \<noteq> r" using assms by auto
  with None assms show ?thesis by (simp add: seen_in_run_def touch_def stamp_def)
next
  case (Some j)
  with assms show ?thesis by (simp add: seen_in_run_def touch_def stamp_def)
qed

lemma bk_key: "bk r w w' \<Longrightarrow> n_seen (heap w' r) r = n_seen (heap w r) r"
  by (simp add: bk_def)

lemma bk_stamp: "bk r w w' \<Longrightarrow> stamp w' x r = stamp w x r"
  by (simp add: bk_def)

lemma bk_links: "bk r w w' \<Longrightarrow> links w' = links w"
  unfolding bk_def by (blast intro: forget_links)

lemma first_unseen_found:
  assumes "n_seen (heap w r) r = Some k"
    and "\<forall>x\<in>set pre. k \<le> stamp w x r" and "stamp w c r < k"
  shows "\<exists>w'. first_unseen (pre @ c # rest) r w = Inr (Some c, w') \<and> bk r w w'
            \<and> (\<forall>a. n_iteritem (heap w' a) = n_iteritem (heap w a))"
  using assms
proof (induction pre arbitrary: w)
  case Nil
  then show ?case
    by (auto simp: seen_in_run_eq intro: bk_touch)
next
  case (Cons p pre)
  let ?w1 = "touch p r w"
  have b: "bk r w ?w1" using Cons.prems(1) by (rule bk_touch)
  have k1: "n_seen (heap ?w1 r) r = Some k" using b Cons.prems(1) by (simp add: bk_key)
  have s1: "\<forall>x\<in>set pre. k \<le> stamp ?w1 x r" using b Cons.prems(2) by (simp add: bk_stamp)
  have c1: "stamp ?w1 c r < k" using b Cons.prems(3) by (simp add: bk_stamp)
  from Cons.IH [OF k1 s1 c1] obtain w' where
    w': "first_unseen (pre @ c # rest) r ?w1 = Inr (Some c, w')" "bk r ?w1 w'"
        "\<forall>a. n_iteritem (heap w' a) = n_iteritem (heap ?w1 a)" by blast
  have "k \<le> stamp w p r" using Cons.prems(2) by simp
  then have "first_unseen ((p # pre) @ c # rest) r w = Inr (Some c, w')"
    using Cons.prems(1) w'(1) by (simp add: seen_in_run_eq)
  moreover have "bk r w w'" using b w'(2) by (rule bk_trans)
  ultimately show ?case using w'(3) by auto
qed

lemma child_last:
  assumes "n_children (heap w a) \<noteq> []"
  shows "child w a (- 1) = Inr (last (n_children (heap w a)))"
proof -
  let ?cs = "n_children (heap w a)"
  have "0 < length ?cs" using assms by simp
  then have "nat (int (length ?cs) + - 1) = length ?cs - 1" by simp
  with assms show ?thesis
    by (simp add: child_def py_index_def py_pos_def last_conv_nth)
qed

lemma child_first:
  assumes "n_children (heap w a) \<noteq> []"
  shows "child w a 0 = Inr (hd (n_children (heap w a)))"
  using assms by (simp add: child_def py_index_def py_pos_def hd_conv_nth)

lemma climb_root:
  assumes "n_iteritem (heap w r) = Some c" "n_parent (heap w c) = None"
  shows "climb r w = Some (Inr (None, w))"
  using assms by (subst climb.simps) simp

lemma stamp_cursor [simp]:
  "stamp (upd a (\<lambda>b. b\<lparr>n_iteritem := c\<rparr>) w) x r = stamp w x r"
  by (simp add: stamp_def)

lemma climb_up:
  assumes cur: "n_iteritem (heap w r) = Some c" and par: "n_parent (heap w c) = Some a"
    and cs: "n_children (heap w a) \<noteq> []" and key: "n_seen (heap w r) r = Some k"
    and seen: "k \<le> stamp w (last (n_children (heap w a))) r"
  shows "\<exists>w'. climb r w = climb r w' \<and> bk r w w' \<and> n_iteritem (heap w' r) = Some a"
proof -
  let ?w1 = "upd r (\<lambda>b. b\<lparr>n_iteritem := Some a\<rparr>) w"
  let ?l = "last (n_children (heap w a))"
  let ?w2 = "touch ?l r ?w1"
  have c1: "n_children (heap ?w1 a) = n_children (heap w a)" by simp
  have ch: "child ?w1 a (- 1) = Inr ?l"
    using child_last [of ?w1 a] cs by (simp only: c1) simp
  have k1: "n_seen (heap ?w1 r) r = Some k" using key by simp
  have sr: "seen_in_run ?l r ?w1 = Inr (True, ?w2)"
    using seen by (simp add: seen_in_run_eq [OF k1])
  have "climb r w = climb r ?w2"
    using cur par ch sr by (subst climb.simps) simp
  moreover have "bk r w ?w2"
    by (rule bk_trans [OF bk_cursor bk_touch [OF k1]])
  moreover have "n_iteritem (heap ?w2 r) = Some a" by simp
  ultimately show ?thesis by blast
qed

lemma climb_next:
  assumes cur: "n_iteritem (heap w r) = Some c" and par: "n_parent (heap w c) = Some a"
    and cs: "n_children (heap w a) = pre @ c' # rest" and key: "n_seen (heap w r) r = Some k"
    and pre: "\<forall>x\<in>set pre. k \<le> stamp w x r" and new: "stamp w c' r < k"
    and lst: "stamp w (last (pre @ c' # rest)) r < k"
  shows "\<exists>w'. climb r w = Some (Inr (Some c', w')) \<and> forget w' = forget w
           \<and> n_seen (heap w' r) r = Some k \<and> n_iteritem (heap w' r) = Some c'
           \<and> (\<forall>x. stamp w' x r = (if x = c' then k else stamp w x r))"
proof -
  let ?w1 = "upd r (\<lambda>b. b\<lparr>n_iteritem := Some a\<rparr>) w"
  let ?l = "last (pre @ c' # rest)"
  let ?w2 = "touch ?l r ?w1"
  have c1: "n_children (heap ?w1 a) = pre @ c' # rest" using cs by auto
  have ch: "child ?w1 a (- 1) = Inr ?l"
    using child_last [of ?w1 a] by (simp only: c1) simp
  have k1: "n_seen (heap ?w1 r) r = Some k" using key by simp
  have sr: "seen_in_run ?l r ?w1 = Inr (False, ?w2)"
    using lst by (simp add: seen_in_run_eq [OF k1])
  have b2: "bk r w ?w2" by (rule bk_trans [OF bk_cursor bk_touch [OF k1]])
  have k2: "n_seen (heap ?w2 r) r = Some k" using bk_key [OF b2] key by (simp only:)
  have c2: "children ?w2 a = pre @ c' # rest"
    using bk_links [OF b2] cs by (simp add: children_def links_def fun_eq_iff)
  have p2: "\<forall>x\<in>set pre. k \<le> stamp ?w2 x r" using pre by (simp only: bk_stamp [OF b2])
  have n2: "stamp ?w2 c' r < k" using new by (simp only: bk_stamp [OF b2])
  from first_unseen_found [OF k2 p2 n2, of rest] obtain w3 where
    w3: "first_unseen (pre @ c' # rest) r ?w2 = Inr (Some c', w3)" "bk r ?w2 w3" by blast
  have b3: "bk r w w3" using b2 w3(2) by (rule bk_trans)
  let ?w4 = "upd r (\<lambda>b. b\<lparr>n_iteritem := Some c'\<rparr>) w3"
  let ?w5 = "upd c' (\<lambda>b. b\<lparr>n_seen := (n_seen b)(r \<mapsto> k)\<rparr>) ?w4"
  have b4: "bk r w ?w4" by (rule bk_trans [OF b3 bk_cursor])
  have k4: "n_seen (heap ?w4 r) r = Some k" using bk_key [OF b4] key by (simp only:)
  have ms: "make_seen c' r ?w4 = Inr ?w5" using k4 by (simp add: make_seen_def)
  have ne: "c' \<noteq> r" using new key by (auto simp: stamp_def)
  have res: "climb r w = Some (Inr (Some c', ?w5))"
    using cur par ch sr w3(1) ms c2 by (subst climb.simps) (simp add: Let_def)
  have f5: "forget ?w5 = forget w"
    using b4 by (simp add: bk_def forget_upd)
  have k5: "n_seen (heap ?w5 r) r = Some k" using k4 ne by simp
  have i5: "n_iteritem (heap ?w5 r) = Some c'" using ne by simp
  have s5: "\<forall>x. stamp ?w5 x r = (if x = c' then k else stamp w x r)"
  proof
    fix x
    have "stamp ?w4 x r = stamp w x r" by (rule bk_stamp [OF b4])
    then show "stamp ?w5 x r = (if x = c' then k else stamp w x r)"
      by (simp add: stamp_def)
  qed
  show ?thesis using res f5 k5 i5 s5 by blast
qed

lemma for_in_leaf:
  assumes "n_iteritem (heap w r) = Some a" "n_children (heap w a) = []"
  shows "for_in r body s w = after_climb r body s (climb r w)"
  using assms
  by (subst for_in.simps)
     (auto simp: next_item_def has_children_def after_climb_def
           split: option.splits sum.splits prod.splits)

lemma for_in_inner:
  assumes "n_iteritem (heap w r) = Some a" "n_children (heap w a) \<noteq> []"
  shows "for_in r body s w = after_climb r body s
           (climb r (upd r (\<lambda>b. b\<lparr>n_iteritem := Some (hd (n_children (heap w a)))\<rparr>) w))"
  using assms
  by (subst for_in.simps)
     (auto simp: next_item_def has_children_def after_climb_def child_first
           split: option.splits sum.splits prod.splits)

lemma shape_links: "shape w' = shape w \<Longrightarrow> links w' = links w"
  by (auto simp: shape_def fun_eq_iff)

lemma shape_seen: "shape w' = shape w \<Longrightarrow> n_seen (heap w' a) = n_seen (heap w a)"
  by (auto simp: shape_def fun_eq_iff)

lemma shape_iteritem: "shape w' = shape w \<Longrightarrow> n_iteritem (heap w' a) = n_iteritem (heap w a)"
  by (auto simp: shape_def fun_eq_iff)

lemma shape_stamp: "shape w' = shape w \<Longrightarrow> stamp w' x r = stamp w x r"
  using shape_seen [of w' w x] by (simp add: stamp_def)

lemma shape_mid_run: "shape w' = shape w \<Longrightarrow> mid_run r k a w' = mid_run r k a w"
  using shape_seen [of w' w r] shape_iteritem [of w' w r] by (simp add: mid_run_def)

lemma loop_ok_forget:
  "loop_ok body Inv D \<Longrightarrow> Inv done s w \<Longrightarrow> forget w' = forget w \<Longrightarrow> Inv done s w'"
  unfolding loop_ok_def by blast

lemma loop_ok_step:
  "loop_ok body Inv D \<Longrightarrow> Inv done s w \<Longrightarrow> D = done @ n # rest \<Longrightarrow>
   \<exists>s' w'. body n s w = Inr (s', w') \<and> shape w' = shape w \<and> Inv (done @ [n]) s' w'"
  unfolding loop_ok_def by blast

lemma bk_forget: "bk r w w' \<Longrightarrow> forget w' = forget w"
  by (simp add: bk_def)

lemma is_tree_parent: "is_tree w par t \<Longrightarrow> n_parent (heap w (root_of t)) = par"
  by (cases t) simp

lemma is_tree_children:
  "is_tree w par t \<Longrightarrow> n_children (heap w (root_of t)) = map root_of (subtrees t)"
  by (cases t) simp

lemma is_tree_subtrees:
  "is_tree w par t \<Longrightarrow> list_all (is_tree w (Some (root_of t))) (subtrees t)"
  by (cases t) simp

lemma preorder_descendants: "preorder t = root_of t # descendants t"
  by (cases t) (simp add: descendants_def)

lemma root_in_preorder: "root_of t \<in> set (preorder t)"
  by (simp add: preorder_descendants [of t])

lemma visitsD:
  assumes "visits r body Inv D k t" "is_tree w par t" "mid_run r k (root_of t) w"
    "\<forall>x\<in>set (descendants t). stamp w x r < k" "Inv done s w"
    "D = done @ descendants t @ post"
  shows "\<exists>s' w'. for_in r body s w = after_climb r body s' (climb r w') \<and>
            mid_run r k (root_of t) w' \<and> visited r k w (descendants t) w' \<and>
            Inv (done @ descendants t) s' w'"
  using assms unfolding visits_def by blast

lemma visit_children:
  assumes ok: "loop_ok body Inv D" and dist: "distinct D"
  shows "(\<forall>t\<in>set trest. visits r body Inv D k t) \<Longrightarrow>
    n_children (heap w a) = map root_of (tpre @ trest) \<Longrightarrow>
    list_all (is_tree w (Some a)) trest \<Longrightarrow>
    mid_run r k c w \<Longrightarrow> n_parent (heap w c) = Some a \<Longrightarrow>
    (\<forall>t\<in>set tpre. k \<le> stamp w (root_of t) r) \<Longrightarrow>
    (\<forall>x\<in>set (concat (map preorder trest)). stamp w x r < k) \<Longrightarrow>
    tpre @ trest \<noteq> [] \<Longrightarrow>
    Inv done s w \<Longrightarrow> D = done @ concat (map preorder trest) @ post \<Longrightarrow>
    \<exists>s' w'. after_climb r body s (climb r w) = after_climb r body s' (climb r w') \<and>
            mid_run r k a w' \<and> visited r k w (concat (map preorder trest)) w' \<and>
            Inv (done @ concat (map preorder trest)) s' w'"
proof (induction trest arbitrary: tpre w s "done" c)
  case Nil
  from Nil.prems(8) have ne: "tpre \<noteq> []" by simp
  have cs: "n_children (heap w a) = map root_of tpre" using Nil.prems(2) by simp
  have cne: "n_children (heap w a) \<noteq> []" using cs ne by simp
  have "last (n_children (heap w a)) = root_of (last tpre)"
    using cs ne by (simp add: last_map)
  moreover have "last tpre \<in> set tpre" using ne by simp
  ultimately have sl: "k \<le> stamp w (last (n_children (heap w a))) r"
    using Nil.prems(6) by simp
  have cur: "n_iteritem (heap w r) = Some c" and key: "n_seen (heap w r) r = Some k"
    using Nil.prems(4) by (simp_all add: mid_run_def)
  from climb_up [OF cur Nil.prems(5) cne key sl] obtain w' where
    w': "climb r w = climb r w'" "bk r w w'" "n_iteritem (heap w' r) = Some a" by blast
  have m: "mid_run r k a w'" using w'(3) bk_key [OF w'(2)] key by (simp add: mid_run_def)
  have v: "visited r k w (concat (map preorder [])) w'"
    using bk_links [OF w'(2)] bk_stamp [OF w'(2)] by (simp add: visited_def)
  have i: "Inv (done @ concat (map preorder [])) s w'"
    using loop_ok_forget [OF ok Nil.prems(9) bk_forget [OF w'(2)]] by simp
  show ?case using w'(1) m v i by (intro exI [of _ s] exI [of _ w']) simp
next
  case (Cons t trest)
  let ?c = "root_of t"
  have cur: "n_iteritem (heap w r) = Some c" and key: "n_seen (heap w r) r = Some k"
    using Cons.prems(4) by (simp_all add: mid_run_def)
  have cs: "n_children (heap w a) = map root_of tpre @ ?c # map root_of trest"
    using Cons.prems(2) by simp
  have pre: "\<forall>x\<in>set (map root_of tpre). k \<le> stamp w x r" using Cons.prems(6) by simp
  have new: "stamp w ?c r < k" using Cons.prems(7) by (simp add: root_in_preorder)
  have "last (map root_of tpre @ ?c # map root_of trest) \<in> set (concat (map preorder (t # trest)))"
  proof (cases "trest = []")
    case True
    then show ?thesis by (simp add: root_in_preorder)
  next
    case False
    then have "last (map root_of tpre @ ?c # map root_of trest) = root_of (last trest)"
      by (simp add: last_map)
    moreover have "last trest \<in> set trest" using False by simp
    ultimately show ?thesis using root_in_preorder by fastforce
  qed
  then have lst: "stamp w (last (map root_of tpre @ ?c # map root_of trest)) r < k"
    using Cons.prems(7) by blast
  from climb_next [OF cur Cons.prems(5) cs key pre new lst] obtain w1 where
    w1: "climb r w = Some (Inr (Some ?c, w1))" "forget w1 = forget w"
        "n_seen (heap w1 r) r = Some k" "n_iteritem (heap w1 r) = Some ?c"
        "\<forall>x. stamp w1 x r = (if x = ?c then k else stamp w x r)" by blast
  have D1: "D = done @ ?c # (descendants t @ concat (map preorder trest) @ post)"
    using Cons.prems(10) by (simp add: preorder_descendants [of t])
  have i1: "Inv done s w1" by (rule loop_ok_forget [OF ok Cons.prems(9) w1(2)])
  from loop_ok_step [OF ok i1 D1] obtain s2 w2 where
    b2: "body ?c s w1 = Inr (s2, w2)" and sh2: "shape w2 = shape w1"
    and i2: "Inv (done @ [?c]) s2 w2" by blast
  have l1: "links w1 = links w" by (rule forget_links [OF w1(2)])
  have l2: "links w2 = links w" using shape_links [OF sh2] l1 by simp
  have step: "after_climb r body s (climb r w) = for_in r body s2 w2"
    by (simp add: w1(1) b2 after_climb_def)
  have dD: "distinct (?c # descendants t @ concat (map preorder trest))"
    using dist D1 by auto
  have t2: "is_tree w2 (Some a) t"
    using Cons.prems(3) by (simp add: is_tree_links [OF l2])
  have "mid_run r k ?c w1" using w1(3,4) by (simp add: mid_run_def)
  then have m2: "mid_run r k ?c w2" by (simp only: shape_mid_run [OF sh2])
  have st2: "\<And>x. stamp w2 x r = (if x = ?c then k else stamp w x r)"
    using w1(5) by (simp only: shape_stamp [OF sh2])
  have u2: "\<forall>x\<in>set (descendants t). stamp w2 x r < k"
  proof
    fix x assume x: "x \<in> set (descendants t)"
    then have "x \<noteq> ?c" using dD by auto
    moreover have "x \<in> set (concat (map preorder (t # trest)))"
      using x by (simp add: preorder_descendants [of t])
    ultimately show "stamp w2 x r < k" using Cons.prems(7) st2 by simp
  qed
  have D2: "D = (done @ [?c]) @ descendants t @ (concat (map preorder trest) @ post)"
    using D1 by simp
  have vt: "visits r body Inv D k t" using Cons.prems(1) by simp
  from visitsD [OF vt t2 m2 u2 i2 D2] obtain s3 w3 where
    w3: "for_in r body s2 w2 = after_climb r body s3 (climb r w3)"
        "mid_run r k ?c w3" "visited r k w2 (descendants t) w3"
        "Inv ((done @ [?c]) @ descendants t) s3 w3" by blast
  have l3: "links w3 = links w" using w3(3) l2 by (simp add: visited_def)
  have st3: "\<And>x. stamp w3 x r = (if x \<in> set (preorder t) then k else stamp w x r)"
    using w3(3) st2 by (simp add: visited_def preorder_descendants [of t])
  have cs3: "n_children (heap w3 a) = map root_of ((tpre @ [t]) @ trest)"
    using Cons.prems(2) links_fields(1) [OF l3, of a] by simp
  have tr3: "list_all (is_tree w3 (Some a)) trest"
    using Cons.prems(3) by (simp add: is_tree_links [OF l3] list_all_iff)
  have p3: "n_parent (heap w3 ?c) = Some a"
    using is_tree_parent [of w "Some a" t] Cons.prems(3) links_fields(2) [OF l3, of ?c] by simp
  have s3: "\<forall>u\<in>set (tpre @ [t]). k \<le> stamp w3 (root_of u) r"
    using Cons.prems(6) by (auto simp: st3 root_in_preorder)
  have u3: "\<forall>x\<in>set (concat (map preorder trest)). stamp w3 x r < k"
  proof
    fix x assume x: "x \<in> set (concat (map preorder trest))"
    then have "x \<notin> set (preorder t)" using dD by (auto simp: preorder_descendants [of t])
    then show "stamp w3 x r < k" using x Cons.prems(7) by (simp add: st3)
  qed
  have D3: "D = ((done @ [?c]) @ descendants t) @ concat (map preorder trest) @ post"
    using D1 by simp
  have ih: "\<forall>t\<in>set trest. visits r body Inv D k t" using Cons.prems(1) by simp
  from Cons.IH [OF ih cs3 tr3 w3(2) p3 s3 u3 _ w3(4) D3] obtain s' w' where
    w': "after_climb r body s3 (climb r w3) = after_climb r body s' (climb r w')"
        "mid_run r k a w'" "visited r k w3 (concat (map preorder trest)) w'"
        "Inv (((done @ [?c]) @ descendants t) @ concat (map preorder trest)) s' w'"
    by auto
  have eq: "after_climb r body s (climb r w) = after_climb r body s' (climb r w')"
    using step w3(1) w'(1) by simp
  have v: "visited r k w (concat (map preorder (t # trest))) w'"
    using w'(3) l3 st3 by (auto simp: visited_def)
  have i: "Inv (done @ concat (map preorder (t # trest))) s' w'"
    using w'(4) by (simp add: preorder_descendants [of t])
  show ?case using eq w'(2) v i by blast
qed

lemma visited_refl: "visited r k w [] w"
  by (simp add: visited_def)

lemma all_visits:
  assumes ok: "loop_ok body Inv D" and dist: "distinct D"
  shows "visits r body Inv D k t"
proof (induction t)
  case (Node a ts)
  show ?case
    unfolding visits_def
  proof (intro allI impI)
    fix w s "done" par post
    assume tr: "is_tree w par (Node a ts)"
      and mr: "mid_run r k (root_of (Node a ts)) w"
      and un: "\<forall>x\<in>set (descendants (Node a ts)). stamp w x r < k"
      and inv: "Inv done s w"
      and D: "D = done @ descendants (Node a ts) @ post"
    have cur: "n_iteritem (heap w r) = Some a" and key: "n_seen (heap w r) r = Some k"
      using mr by (simp_all add: mid_run_def)
    have cs: "n_children (heap w a) = map root_of ts" using tr by simp
    show "\<exists>s' w'. for_in r body s w = after_climb r body s' (climb r w') \<and>
            mid_run r k (root_of (Node a ts)) w' \<and>
            visited r k w (descendants (Node a ts)) w' \<and>
            Inv (done @ descendants (Node a ts)) s' w'"
    proof (cases "ts = []")
      case True
      then have "for_in r body s w = after_climb r body s (climb r w)"
        using for_in_leaf [OF cur] cs by simp
      then show ?thesis
        using True mr inv by (intro exI [of _ s] exI [of _ w]) (simp add: descendants_def visited_refl)
    next
      case False
      let ?c = "root_of (hd ts)"
      let ?w0 = "upd r (\<lambda>b. b\<lparr>n_iteritem := Some ?c\<rparr>) w"
      have hd: "hd (n_children (heap w a)) = ?c" using cs False by (simp add: hd_map)
      have ne: "n_children (heap w a) \<noteq> []" using cs False by simp
      have f0: "for_in r body s w = after_climb r body s (climb r ?w0)"
        using for_in_inner [OF cur ne, of body s] by (simp only: hd)
      have b0: "bk r w ?w0" by (rule bk_cursor)
      have l0: "links ?w0 = links w" by (rule bk_links [OF b0])
      have vs: "\<forall>t\<in>set ts. visits r body Inv D k t" using Node.IH by blast
      have c0: "n_children (heap ?w0 a) = map root_of ([] @ ts)"
        using cs links_fields(1) [OF l0, of a] by simp
      have t0: "list_all (is_tree ?w0 (Some a)) ts"
        using tr by (simp add: is_tree_links [OF l0] list_all_iff)
      have m0: "mid_run r k ?c ?w0" using key by (simp add: mid_run_def)
      have "hd ts \<in> set ts" using False by simp
      then have "is_tree w (Some a) (hd ts)" using tr by (simp add: list_all_iff)
      then have "n_parent (heap w ?c) = Some a" by (rule is_tree_parent)
      then have p0: "n_parent (heap ?w0 ?c) = Some a"
        using links_fields(2) [OF l0, of ?c] by simp
      have s0: "\<forall>t\<in>set []. k \<le> stamp ?w0 (root_of t) r" by simp
      have u0: "\<forall>x\<in>set (concat (map preorder ts)). stamp ?w0 x r < k"
        using un by (simp add: descendants_def)
      have n0: "[] @ ts \<noteq> []" using False by simp
      have i0: "Inv done s ?w0" by (rule loop_ok_forget [OF ok inv bk_forget [OF b0]])
      have D0: "D = done @ concat (map preorder ts) @ post"
        using D by (simp add: descendants_def)
      from visit_children [OF ok dist vs c0 t0 m0 p0 s0 u0 n0 i0 D0] obtain s' w' where
        w': "after_climb r body s (climb r ?w0) = after_climb r body s' (climb r w')"
            "mid_run r k a w'" "visited r k ?w0 (concat (map preorder ts)) w'"
            "Inv (done @ concat (map preorder ts)) s' w'" by blast
      have v: "visited r k w (concat (map preorder ts)) w'"
        using w'(3) l0 by (simp add: visited_def)
      show ?thesis
        using f0 w'(1,2,4) v
        by (intro exI [of _ s'] exI [of _ w']) (simp add: descendants_def)
    qed
  qed
qed

lemma next_item_start:
  assumes "n_iteritem (heap w r) = None"
  shows "next_item r w = next_item r
           (upd r (\<lambda>b. b\<lparr>n_iteritem := Some r\<rparr>)
              (upd r (\<lambda>b. b\<lparr>n_seen := (n_seen b)(r \<mapsto> stamp w r r + 1)\<rparr>) w))"
  using assms by (simp add: next_item_def stamp_def Let_def)

lemma for_in_start:
  assumes "n_iteritem (heap w r) = None"
  shows "for_in r body s w = for_in r body s
           (upd r (\<lambda>b. b\<lparr>n_iteritem := Some r\<rparr>)
              (upd r (\<lambda>b. b\<lparr>n_seen := (n_seen b)(r \<mapsto> stamp w r r + 1)\<rparr>) w))"
  by (rule trans [OF for_in.simps], simp only: next_item_start [OF assms],
      rule for_in.simps [symmetric])

lemma forget_reset: "forget (reset r w) = forget w"
  by (simp add: reset_def forget_upd)

lemma not_in_descendants: "distinct (preorder t) \<Longrightarrow> root_of t \<notin> set (descendants t)"
  by (simp add: preorder_descendants [of t])

text \<open>
  A loop over the tree at whose root it starts runs its body on the descendants
  of the root, in preorder, and ends: the invariant holds of all of them. The
  tree is one in which no run from the root is under way, and in which no node
  carries the number of a run from the root that the root has not yet made.
\<close>

lemma for_in_root:
  assumes ok: "loop_ok body Inv (descendants t)" and dist: "distinct (preorder t)"
    and tr: "is_tree w None t" and idle: "n_iteritem (heap w (root_of t)) = None"
    and runs: "\<forall>x\<in>set (descendants t). stamp w x (root_of t) \<le> stamp w (root_of t) (root_of t)"
    and inv: "Inv [] s w"
  shows "\<exists>s' w'. for_in (root_of t) body s w = Some (Inr (s', w')) \<and>
           Inv (descendants t) s' w' \<and> links w' = links w \<and>
           n_iteritem (heap w' (root_of t)) = None \<and>
           (\<forall>x\<in>set (descendants t). stamp w' x (root_of t) \<le> stamp w' (root_of t) (root_of t))"
proof -
  let ?r = "root_of t"
  let ?k = "stamp w ?r ?r + 1"
  let ?wa = "upd ?r (\<lambda>b. b\<lparr>n_seen := (n_seen b)(?r \<mapsto> ?k)\<rparr>) w"
  let ?w1 = "upd ?r (\<lambda>b. b\<lparr>n_iteritem := Some ?r\<rparr>) ?wa"
  have dD: "distinct (descendants t)" using dist by (simp add: preorder_descendants [of t])
  have nr: "?r \<notin> set (descendants t)" by (rule not_in_descendants [OF dist])
  have fa: "forget ?wa = forget w" by (simp add: forget_upd)
  have f1: "forget ?w1 = forget w" using fa by (simp add: forget_upd)
  have l1: "links ?w1 = links w" by (rule forget_links [OF f1])
  have t1: "is_tree ?w1 None t" using tr by (simp add: is_tree_links [OF l1])
  have m1: "mid_run ?r ?k ?r ?w1" by (simp add: mid_run_def)
  have u1: "\<forall>x\<in>set (descendants t). stamp ?w1 x ?r < ?k"
  proof
    fix x assume x: "x \<in> set (descendants t)"
    then have "x \<noteq> ?r" using nr by auto
    then have "stamp ?w1 x ?r = stamp w x ?r" by (simp add: stamp_def)
    then show "stamp ?w1 x ?r < ?k" using runs x by auto
  qed
  have i1: "Inv [] s ?w1" by (rule loop_ok_forget [OF ok inv f1])
  have D1: "descendants t = [] @ descendants t @ []" by simp
  from visitsD [OF all_visits [OF ok dD] t1 m1 u1 i1 D1] obtain s' w' where
    w': "for_in ?r body s ?w1 = after_climb ?r body s' (climb ?r w')"
        "mid_run ?r ?k ?r w'" "visited ?r ?k ?w1 (descendants t) w'"
        "Inv ([] @ descendants t) s' w'" by blast
  have l': "links w' = links w" using w'(3) l1 by (simp add: visited_def)
  have cur: "n_iteritem (heap w' ?r) = Some ?r" using w'(2) by (simp add: mid_run_def)
  have "n_parent (heap w ?r) = None" using tr by (rule is_tree_parent)
  then have par: "n_parent (heap w' ?r) = None" using links_fields(2) [OF l', of ?r] by simp
  have "for_in ?r body s w = for_in ?r body s ?w1" by (rule for_in_start [OF idle])
  also have "\<dots> = after_climb ?r body s' (climb ?r w')" by (rule w'(1))
  also have "\<dots> = Some (Inr (s', reset ?r w'))"
    by (simp add: climb_root [OF cur par] after_climb_def)
  finally have res: "for_in ?r body s w = Some (Inr (s', reset ?r w'))" .
  have "Inv (descendants t) s' (reset ?r w')"
    using loop_ok_forget [OF ok _ forget_reset] w'(4) by simp
  moreover have "links (reset ?r w') = links w"
    using forget_links [OF forget_reset, of ?r w'] l' by simp
  moreover have "n_iteritem (heap (reset ?r w') ?r) = None" by (simp add: reset_def)
  moreover have "\<forall>x\<in>set (descendants t). stamp (reset ?r w') x ?r \<le> stamp (reset ?r w') ?r ?r"
  proof
    fix x assume x: "x \<in> set (descendants t)"
    have "stamp w' ?r ?r = ?k" using w'(2) by (simp add: mid_run_def stamp_def)
    moreover have "stamp w' x ?r = ?k" using w'(3) x by (simp add: visited_def)
    ultimately show "stamp (reset ?r w') x ?r \<le> stamp (reset ?r w') ?r ?r"
      by (simp add: reset_def stamp_def)
  qed
  ultimately show ?thesis using res by blast
qed

section \<open>Shifting the page numbers\<close>

lemma int_add_number: "is_number offset \<Longrightarrow> \<exists>v. int_add a offset = Inr v"
  by (cases offset) (simp_all add: is_number_def)

lemma setattr_page:
  "setattr node Page v w =
     Inr (upd node (\<lambda>b. b\<lparr>attrs := (attrs b)
              (Page := if \<not> isinstance_int v \<or> int_of v < 0 then PyInt 0 else v)\<rparr>)
        (w\<lparr>log := log w @ (if \<not> isinstance_int v \<or> int_of v < 0 then [PageSetToZero] else [])\<rparr>))"
  by (simp add: setattr_def validate_def and_then_def check_page_def check_bool_def
      check_text_def check_action_def check_destination_def check_color_def)

lemma shape_attrs:
  "shape (upd node (\<lambda>b. b\<lparr>attrs := f b\<rparr>) (w\<lparr>log := l\<rparr>)) = shape w"
  by (auto simp: shape_def links_def fun_eq_iff upd_def)

lemma forget_attrs: "forget w' = forget w \<Longrightarrow> attrs (heap w' x) = attrs (heap w x)"
proof -
  assume h: "forget w' = forget w"
  have "\<And>v. attrs (heap v x) = attrs (heap (forget v) x)" by (simp add: forget_def)
  then show ?thesis using h by metis
qed

lemma forget_log: "forget w' = forget w \<Longrightarrow> log w' = log w"
proof -
  assume h: "forget w' = forget w"
  have "\<And>v. log v = log (forget v)" by (simp add: forget_def)
  then show ?thesis using h by metis
qed

lemma shift_body_step:
  assumes num: "is_number offset"
  shows "\<exists>w'. shift_body offset n s w = Inr (s, w') \<and> shape w' = shape w \<and>
           log w' = log w @ page_warning offset (attrs (heap w n) Page) \<and>
           (\<forall>x. attrs (heap w' x) =
              (if x = n then (attrs (heap w n))(Page := new_page offset (attrs (heap w n) Page))
               else attrs (heap w x)))"
proof (cases "isinstance_int (attrs (heap w n) Page)")
  case False
  then show ?thesis
    by (auto simp: shift_body_def getattr_def new_page_def page_warning_def fun_eq_iff)
next
  case True
  from int_add_number [OF num] obtain v where
    v: "int_add (int_of (attrs (heap w n) Page)) offset = Inr v" by blast
  show ?thesis
    using True v
    by (auto simp: shift_body_def getattr_def new_page_def page_warning_def setattr_page
        shape_attrs fun_eq_iff)
qed

lemma shift_loop_ok:
  assumes num: "is_number offset" and dist: "distinct D"
  shows "loop_ok (shift_body offset) (shifted offset w0) D"
  unfolding loop_ok_def
proof (intro conjI allI impI)
  fix "done" s w w'
  assume "shifted offset w0 done s w" "forget w' = forget w"
  then show "shifted offset w0 done s w'"
    using forget_attrs [of w' w] forget_log [of w' w] by (simp add: shifted_def)
next
  fix "done" n rest s w
  assume inv: "shifted offset w0 done s w" and D: "D = done @ n # rest"
  have nd: "n \<notin> set done" using dist D by auto
  then have an: "attrs (heap w n) = attrs (heap w0 n)" using inv by (simp add: shifted_def)
  from shift_body_step [OF num, of n s w] obtain w' where
    w': "shift_body offset n s w = Inr (s, w')" "shape w' = shape w"
        "log w' = log w @ page_warning offset (attrs (heap w n) Page)"
        "\<forall>x. attrs (heap w' x) =
              (if x = n then (attrs (heap w n))(Page := new_page offset (attrs (heap w n) Page))
               else attrs (heap w x))" by blast
  have "shifted offset w0 (done @ [n]) s w'"
    using inv w'(3,4) an nd by (auto simp: shifted_def)
  then show "\<exists>s' w'. shift_body offset n s w = Inr (s', w') \<and> shape w' = shape w \<and>
               shifted offset w0 (done @ [n]) s' w'"
    using w'(1,2) by blast
qed

lemma shift_pagenumber_body:
  "shift_pagenumber self offset w =
     (case for_in self (shift_body offset) () (reset self w) of
        None \<Rightarrow> None
      | Some (Inl e) \<Rightarrow> Some (Inl e)
      | Some (Inr (s, w1)) \<Rightarrow> Some (Inr (reset self w1)))"
  by (simp add: shift_pagenumber_def shift_body_def)

lemma stamp_reset [simp]: "stamp (reset r w) x s = stamp w x s"
  by (simp add: reset_def stamp_def)

lemma links_reset [simp]: "links (reset r w) = links w"
  by (rule forget_links [OF forget_reset])

lemma shifted_forget:
  "shifted offset w0 done s w \<Longrightarrow> forget w' = forget w \<Longrightarrow> shifted offset w0 done s w'"
  using forget_attrs [of w' w] forget_log [of w' w] by (simp add: shifted_def)

lemma shift_pagenumber_root:
  assumes num: "is_number offset" and dist: "distinct (preorder t)"
    and tr: "is_tree w None t"
    and runs: "\<forall>x\<in>set (descendants t). stamp w x (root_of t) \<le> stamp w (root_of t) (root_of t)"
  shows "\<exists>w'. shift_pagenumber (root_of t) offset w = Some (Inr w') \<and>
           shifted offset w (descendants t) () w' \<and> links w' = links w \<and>
           (\<forall>x\<in>set (descendants t). stamp w' x (root_of t) \<le> stamp w' (root_of t) (root_of t))"
proof -
  let ?r = "root_of t"
  let ?w0 = "reset ?r w"
  have dD: "distinct (descendants t)" using dist by (simp add: preorder_descendants [of t])
  have ok: "loop_ok (shift_body offset) (shifted offset w) (descendants t)"
    by (rule shift_loop_ok [OF num dD])
  have t0: "is_tree ?w0 None t" using tr by (simp add: is_tree_links [OF links_reset])
  have idle: "n_iteritem (heap ?w0 ?r) = None" by (simp add: reset_def)
  have r0: "\<forall>x\<in>set (descendants t). stamp ?w0 x ?r \<le> stamp ?w0 ?r ?r" using runs by simp
  have "shifted offset w [] () w" by (simp add: shifted_def)
  then have i0: "shifted offset w [] () ?w0" by (rule shifted_forget) (rule forget_reset)
  from for_in_root [OF ok dist t0 idle r0 i0] obtain s' w1 where
    w1: "for_in ?r (shift_body offset) () ?w0 = Some (Inr (s', w1))"
        "shifted offset w (descendants t) s' w1" "links w1 = links ?w0"
        "\<forall>x\<in>set (descendants t). stamp w1 x ?r \<le> stamp w1 ?r ?r" by blast
  have "shift_pagenumber ?r offset w = Some (Inr (reset ?r w1))"
    by (simp add: shift_pagenumber_body w1(1))
  moreover have "shifted offset w (descendants t) () (reset ?r w1)"
    using shifted_forget [OF w1(2) forget_reset] by simp
  moreover have "links (reset ?r w1) = links w" using w1(3) by simp
  moreover have "\<forall>x\<in>set (descendants t). stamp (reset ?r w1) x ?r \<le> stamp (reset ?r w1) ?r ?r"
    using w1(4) by simp
  ultimately show ?thesis by blast
qed

lemma shiftedD:
  assumes "shifted offset w0 done s w"
  shows "attrs (heap w x) =
           (if x \<in> set done
            then (attrs (heap w0 x))(Page := new_page offset (attrs (heap w0 x) Page))
            else attrs (heap w0 x))"
    and "log w = log w0 @ concat (map (\<lambda>x. page_warning offset (attrs (heap w0 x) Page)) done)"
  using assms by (simp_all add: shifted_def)

lemma new_page_negative:
  assumes "k < 0" "fits_int k" "isinstance_int p \<longrightarrow> fits_int (int_of p)"
  shows "new_page (PyInt k) p = (if isinstance_int p then PyInt (max 0 (int_of p + k)) else p)"
    and "page_warning (PyInt k) p =
           (if isinstance_int p \<and> int_of p + k < 0 then [PageSetToZero] else [])"
  using assms by (auto simp: new_page_def page_warning_def fits_int_def)

lemma concat_warnings:
  "concat (map (\<lambda>x. if P x then [m] else []) xs) = map (\<lambda>x. m) (filter P xs)"
  by (induction xs) simp_all

text \<open>
  C10 (as amended). \<^verbatim>\<open>shift_pagenumber\<close> at the root of a tree, with a
  negative offset of the type \<^verbatim>\<open>int\<close>, returns. A node below the root whose
  page is an \<^verbatim>\<open>int\<close> \<open>p\<close> ends with the page \<open>p + k\<close> when that is not
  negative and with the page 0 otherwise, and one warning is written for each
  node of the second kind, in the order of the traversal. Nothing else changes.
  The tree is in a state as the methods of the class leave it: its pages of
  type \<^verbatim>\<open>int\<close> are in the range of that type, and no node carries the number
  of a run from the root that the root has not made.
\<close>

theorem shift_pagenumber_saturates:
  assumes tr: "is_tree w None t" and dist: "distinct (preorder t)"
    and runs: "\<forall>x\<in>set (descendants t). stamp w x (root_of t) \<le> stamp w (root_of t) (root_of t)"
    and pages: "\<forall>x\<in>set (descendants t).
                  isinstance_int (getattr w x Page) \<longrightarrow> fits_int (int_of (getattr w x Page))"
    and neg: "k < 0" and int: "fits_int k"
  shows "\<exists>w'. shift_pagenumber (root_of t) (PyInt k) w = Some (Inr w') \<and>
           (\<forall>x\<in>set (descendants t). getattr w' x Page =
              (if isinstance_int (getattr w x Page)
               then PyInt (max 0 (int_of (getattr w x Page) + k)) else getattr w x Page)) \<and>
           log w' = log w @ map (\<lambda>x. PageSetToZero)
              (filter (\<lambda>x. isinstance_int (getattr w x Page) \<and> int_of (getattr w x Page) + k < 0)
                 (descendants t)) \<and>
           (\<forall>x name. x \<notin> set (descendants t) \<or> name \<noteq> Page \<longrightarrow>
              getattr w' x name = getattr w x name) \<and>
           links w' = links w"
proof -
  have num: "is_number (PyInt k)" by (simp add: is_number_def)
  from shift_pagenumber_root [OF num dist tr runs] obtain w' where
    w': "shift_pagenumber (root_of t) (PyInt k) w = Some (Inr w')"
        "shifted (PyInt k) w (descendants t) () w'" "links w' = links w" by blast
  note at = shiftedD(1) [OF w'(2)] and lg = shiftedD(2) [OF w'(2)]
  have p: "\<forall>x\<in>set (descendants t). getattr w' x Page =
              (if isinstance_int (getattr w x Page)
               then PyInt (max 0 (int_of (getattr w x Page) + k)) else getattr w x Page)"
  proof
    fix x assume x: "x \<in> set (descendants t)"
    then have "isinstance_int (getattr w x Page) \<longrightarrow> fits_int (int_of (getattr w x Page))"
      using pages by blast
    from new_page_negative(1) [OF neg int this] x show "getattr w' x Page =
              (if isinstance_int (getattr w x Page)
               then PyInt (max 0 (int_of (getattr w x Page) + k)) else getattr w x Page)"
      by (simp add: getattr_def at)
  qed
  have "map (\<lambda>x. page_warning (PyInt k) (attrs (heap w x) Page)) (descendants t)
      = map (\<lambda>x. if isinstance_int (getattr w x Page) \<and> int_of (getattr w x Page) + k < 0
                  then [PageSetToZero] else []) (descendants t)"
  proof (rule map_cong [OF refl])
    fix x assume x: "x \<in> set (descendants t)"
    then have "isinstance_int (getattr w x Page) \<longrightarrow> fits_int (int_of (getattr w x Page))"
      using pages by blast
    from new_page_negative(2) [OF neg int this] show
      "page_warning (PyInt k) (attrs (heap w x) Page)
       = (if isinstance_int (getattr w x Page) \<and> int_of (getattr w x Page) + k < 0
          then [PageSetToZero] else [])"
      by (simp add: getattr_def)
  qed
  then have l: "log w' = log w @ map (\<lambda>x. PageSetToZero)
              (filter (\<lambda>x. isinstance_int (getattr w x Page) \<and> int_of (getattr w x Page) + k < 0)
                 (descendants t))"
    by (simp only: lg concat_warnings)
  have f: "\<forall>x name. x \<notin> set (descendants t) \<or> name \<noteq> Page \<longrightarrow>
              getattr w' x name = getattr w x name"
    by (auto simp: getattr_def at)
  show ?thesis using w'(1,3) p l f by blast
qed

lemma new_page_there:
  assumes "fits_int k"
    and "isinstance_int p \<longrightarrow> 0 \<le> int_of p + k \<and> int_of p + k \<le> maxint"
  shows "new_page (PyInt k) p = (if isinstance_int p then PyInt (int_of p + k) else p)"
    and "page_warning (PyInt k) p = []"
  using assms by (auto simp: new_page_def page_warning_def fits_int_def)

lemma new_page_back:
  assumes "fits_int k"
    and "isinstance_int p \<longrightarrow> 0 \<le> int_of p \<and> int_of p \<le> maxint \<and> 0 \<le> int_of p + k
           \<and> int_of p + k \<le> maxint"
  shows "new_page (int_neg k) (new_page (PyInt k) p)
           = (if isinstance_int p then PyInt (int_of p) else p)"
    and "page_warning (int_neg k) (new_page (PyInt k) p) = []"
proof -
  have np: "new_page (PyInt k) p = (if isinstance_int p then PyInt (int_of p + k) else p)"
    using new_page_there(1) [OF assms(1), of p] assms(2) by simp
  show "new_page (int_neg k) (new_page (PyInt k) p)
           = (if isinstance_int p then PyInt (int_of p) else p)"
  proof (cases "isinstance_int p")
    case False
    then show ?thesis by (simp add: np new_page_def)
  next
    case True
    with assms have "fits_int (- k)" by (simp add: fits_int_def)
    then show ?thesis
      using True assms by (simp add: np int_neg_def new_page_def fits_int_def)
  qed
  show "page_warning (int_neg k) (new_page (PyInt k) p) = []"
  proof (cases "isinstance_int p")
    case False
    then show ?thesis by (simp add: np page_warning_def)
  next
    case True
    with assms have "fits_int (- k)" by (simp add: fits_int_def)
    then show ?thesis
      using True assms by (simp add: np int_neg_def page_warning_def fits_int_def)
  qed
qed

lemma concat_empty: "(\<And>x. x \<in> set xs \<Longrightarrow> f x = []) \<Longrightarrow> concat (map f xs) = []"
  by (induction xs) simp_all

lemma is_number_int_neg: "is_number (int_neg k)"
  by (simp add: int_neg_def is_number_def)

text \<open>
  C8 (as amended). At the root of a tree whose pages of type \<^verbatim>\<open>int\<close> are
  not negative, and for an offset \<open>k\<close> of type \<^verbatim>\<open>int\<close> that takes no page
  below zero or above \<^verbatim>\<open>sys.maxint\<close>, \<^verbatim>\<open>shift_pagenumber(k)\<close> followed by
  \<^verbatim>\<open>shift_pagenumber(-k)\<close> returns and gives every node its page back (a page
  \<^verbatim>\<open>True\<close> or \<^verbatim>\<open>False\<close> comes back as 1 or 0); no warning is written and
  nothing else changes.
\<close>

theorem shift_pagenumber_restores:
  assumes tr: "is_tree w None t" and dist: "distinct (preorder t)"
    and runs: "\<forall>x\<in>set (descendants t). stamp w x (root_of t) \<le> stamp w (root_of t) (root_of t)"
    and int: "fits_int k"
    and pages: "\<forall>x\<in>set (descendants t). isinstance_int (getattr w x Page) \<longrightarrow>
                  0 \<le> int_of (getattr w x Page) \<and> int_of (getattr w x Page) \<le> maxint \<and>
                  0 \<le> int_of (getattr w x Page) + k \<and> int_of (getattr w x Page) + k \<le> maxint"
  shows "\<exists>w1 w2. shift_pagenumber (root_of t) (PyInt k) w = Some (Inr w1) \<and>
           shift_pagenumber (root_of t) (int_neg k) w1 = Some (Inr w2) \<and>
           (\<forall>x\<in>set (descendants t). getattr w2 x Page =
              (if isinstance_int (getattr w x Page) then PyInt (int_of (getattr w x Page))
               else getattr w x Page)) \<and>
           (\<forall>x name. x \<notin> set (descendants t) \<or> name \<noteq> Page \<longrightarrow>
              getattr w2 x name = getattr w x name) \<and>
           log w2 = log w \<and> links w2 = links w"
proof -
  let ?D = "descendants t"
  have num: "is_number (PyInt k)" by (simp add: is_number_def)
  from shift_pagenumber_root [OF num dist tr runs] obtain w1 where
    w1: "shift_pagenumber (root_of t) (PyInt k) w = Some (Inr w1)"
        "shifted (PyInt k) w ?D () w1" "links w1 = links w"
        "\<forall>x\<in>set ?D. stamp w1 x (root_of t) \<le> stamp w1 (root_of t) (root_of t)" by blast
  have t1: "is_tree w1 None t" using tr by (simp add: is_tree_links [OF w1(3)])
  from shift_pagenumber_root [OF is_number_int_neg dist t1 w1(4)] obtain w2 where
    w2: "shift_pagenumber (root_of t) (int_neg k) w1 = Some (Inr w2)"
        "shifted (int_neg k) w1 ?D () w2" "links w2 = links w1" by blast
  note a1 = shiftedD(1) [OF w1(2)] and l1 = shiftedD(2) [OF w1(2)]
  note a2 = shiftedD(1) [OF w2(2)] and l2 = shiftedD(2) [OF w2(2)]
  have pg: "\<And>x. x \<in> set ?D \<Longrightarrow>
      isinstance_int (attrs (heap w x) Page) \<longrightarrow>
        0 \<le> int_of (attrs (heap w x) Page) \<and> int_of (attrs (heap w x) Page) \<le> maxint \<and>
        0 \<le> int_of (attrs (heap w x) Page) + k \<and> int_of (attrs (heap w x) Page) + k \<le> maxint"
    using pages by (simp add: getattr_def)
  have p: "\<forall>x\<in>set ?D. getattr w2 x Page =
              (if isinstance_int (getattr w x Page) then PyInt (int_of (getattr w x Page))
               else getattr w x Page)"
  proof
    fix x assume x: "x \<in> set ?D"
    from new_page_back(1) [OF int pg [OF x]] x
    show "getattr w2 x Page =
              (if isinstance_int (getattr w x Page) then PyInt (int_of (getattr w x Page))
               else getattr w x Page)"
      by (simp add: getattr_def a2 a1)
  qed
  have f: "\<forall>x name. x \<notin> set ?D \<or> name \<noteq> Page \<longrightarrow> getattr w2 x name = getattr w x name"
    by (auto simp: getattr_def a2 a1)
  have e1: "concat (map (\<lambda>x. page_warning (PyInt k) (attrs (heap w x) Page)) ?D) = []"
  proof (rule concat_empty)
    fix x assume x: "x \<in> set ?D"
    from pg [OF x] show "page_warning (PyInt k) (attrs (heap w x) Page) = []"
      by (intro new_page_there(2) [OF int]) simp
  qed
  have e2: "concat (map (\<lambda>x. page_warning (int_neg k) (attrs (heap w1 x) Page)) ?D) = []"
  proof (rule concat_empty)
    fix x assume x: "x \<in> set ?D"
    from new_page_back(2) [OF int pg [OF x]] x
    show "page_warning (int_neg k) (attrs (heap w1 x) Page) = []"
      by (simp add: a1)
  qed
  have l: "log w2 = log w" by (simp add: l2 l1 e1 e2)
  have "links w2 = links w" using w2(3) w1(3) by simp
  then show ?thesis using w1(1) w2(1) p f l by blast
qed

lemmas ev_shift = shift_pagenumber_def t_ab_def w_pages_def w_maxpage_def descendants_def
  stamp_def int_neg_def fits_int_def maxint_def

lemma w_pages_tree:
  "is_tree w_pages None t_ab \<and> distinct (preorder t_ab) \<and> root_of t_ab = 0 \<and>
   descendants t_ab = [1, 2] \<and>
   list_all (\<lambda>x. stamp w_pages x 0 \<le> stamp w_pages 0 0) [1, 2] \<and>
   getattr w_pages 1 Page = PyInt 10 \<and> getattr w_pages 2 Page = PyInt 3 \<and> log w_pages = []"
  by (simp add: ev ev_shift cong: let_weak_cong)

text \<open>
  The tree \<open>root \<rightarrow> A, B\<close> with the pages 10 and 3, shifted by -5: the pages
  are 5 and 0, and one warning is written.
\<close>

theorem shift_pagenumber_saturates_witness:
  "is_tree w_pages None t_ab \<and> distinct (preorder t_ab) \<and>
   list_all (\<lambda>x. stamp w_pages x 0 \<le> stamp w_pages 0 0) (descendants t_ab) \<and>
   getattr w_pages 1 Page = PyInt 10 \<and> getattr w_pages 2 Page = PyInt 3 \<and>
   (\<exists>w'. shift_pagenumber 0 (PyInt (- 5)) w_pages = Some (Inr w') \<and>
         getattr w' 1 Page = PyInt 5 \<and> getattr w' 2 Page = PyInt 0 \<and>
         log w' = [PageSetToZero])"
proof -
  note t = w_pages_tree
  have r: "\<forall>x\<in>set (descendants t_ab). stamp w_pages x (root_of t_ab) \<le> stamp w_pages (root_of t_ab) (root_of t_ab)"
    using t by simp
  have p: "\<forall>x\<in>set (descendants t_ab). isinstance_int (getattr w_pages x Page) \<longrightarrow>
             fits_int (int_of (getattr w_pages x Page))"
    using t by (simp add: fits_int_def maxint_def)
  have k: "(- 5 :: int) < 0" "fits_int (- 5)" by (simp_all add: fits_int_def maxint_def)
  from shift_pagenumber_saturates [OF _ _ r p k] t show ?thesis
    by auto
qed

text \<open>
  The claim C10 as worded fails for an offset of the type \<^verbatim>\<open>long\<close>: the sum
  of an \<^verbatim>\<open>int\<close> and a \<^verbatim>\<open>long\<close> is a \<^verbatim>\<open>long\<close>, which the check of the
  page refuses. With the offset \<^verbatim>\<open>-2L\<close> the pages 10 and 3 are both set to 0,
  each with a warning, though 8 and 1 are not negative.
\<close>

theorem shift_pagenumber_long_counterexample:
  "getattr w_pages 1 Page = PyInt 10 \<and> getattr w_pages 2 Page = PyInt 3 \<and>
   map_option (\<lambda>w. (getattr w 1 Page, getattr w 2 Page, log w))
       (returned (shift_pagenumber 0 (PyLong (- 2)) w_pages))
     = Some (PyInt 0, PyInt 0, [PageSetToZero, PageSetToZero])"
  by (simp add: ev ev_shift cong: let_weak_cong)

text \<open>
  The tree \<open>root \<rightarrow> A, B\<close> with the pages 10 and 3, shifted by -3 and then by
  3: the pages are 10 and 3 again, and nothing is written.
\<close>

theorem shift_pagenumber_restores_witness:
  "is_tree w_pages None t_ab \<and> distinct (preorder t_ab) \<and>
   list_all (\<lambda>x. stamp w_pages x 0 \<le> stamp w_pages 0 0) (descendants t_ab) \<and>
   getattr w_pages 1 Page = PyInt 10 \<and> getattr w_pages 2 Page = PyInt 3 \<and>
   int_neg (- 3) = PyInt 3 \<and>
   (\<exists>w1 w2. shift_pagenumber 0 (PyInt (- 3)) w_pages = Some (Inr w1) \<and>
         shift_pagenumber 0 (PyInt 3) w1 = Some (Inr w2) \<and>
         getattr w2 1 Page = PyInt 10 \<and> getattr w2 2 Page = PyInt 3 \<and> log w2 = [])"
proof -
  note t = w_pages_tree
  have r: "\<forall>x\<in>set (descendants t_ab). stamp w_pages x (root_of t_ab) \<le> stamp w_pages (root_of t_ab) (root_of t_ab)"
    using t by simp
  have k: "fits_int (- 3)" by (simp add: fits_int_def maxint_def)
  have p: "\<forall>x\<in>set (descendants t_ab). isinstance_int (getattr w_pages x Page) \<longrightarrow>
             0 \<le> int_of (getattr w_pages x Page) \<and> int_of (getattr w_pages x Page) \<le> maxint \<and>
             0 \<le> int_of (getattr w_pages x Page) + - 3 \<and>
             int_of (getattr w_pages x Page) + - 3 \<le> maxint"
    using t by (simp add: maxint_def)
  have n: "int_neg (- 3) = PyInt 3" by (simp add: int_neg_def fits_int_def maxint_def)
  from shift_pagenumber_restores [OF _ _ r k p] t n show ?thesis
    by auto
qed

text \<open>
  The claim C8 as worded fails. With \<open>k\<close> the \<^verbatim>\<open>long\<close> \<^verbatim>\<open>-2L\<close> no sum is
  negative in either call (10 - 2 and 3 - 2, then 0 + 2), yet both pages are 0
  after the first call and after the second. And with the page
  \<^verbatim>\<open>sys.maxint\<close> and \<open>k = 1\<close> the first call takes the page not below zero but
  out of the type \<^verbatim>\<open>int\<close>, and sets it to 0.
\<close>

theorem shift_pagenumber_lost_counterexample:
  "getattr w_pages 1 Page = PyInt 10 \<and> getattr w_pages 2 Page = PyInt 3 \<and>
   map_option (\<lambda>w. (getattr w 1 Page, getattr w 2 Page))
       (returned (shift_pagenumber 0 (PyLong (- 2)) w_pages))
     = Some (PyInt 0, PyInt 0) \<and>
   map_option (\<lambda>w. (getattr w 1 Page, getattr w 2 Page))
       (returned (shift_pagenumber 0 (PyLong 2)
          (the (returned (shift_pagenumber 0 (PyLong (- 2)) w_pages)))))
     = Some (PyInt 0, PyInt 0) \<and>
   getattr w_maxpage 1 Page = PyInt maxint \<and>
   map_option (\<lambda>w. getattr w 1 Page) (returned (shift_pagenumber 0 (PyInt 1) w_maxpage))
     = Some (PyInt 0)"
  by (simp add: ev ev_shift cong: let_weak_cong)

end
